theory Spec2Isabelle
  imports Complex_Main "HOL-Library.AList" "HOL-Library.Word"
begin

section \<open>Parts, segments and the segment list\<close>

text \<open>
  The embedding follows \<^verbatim>\<open>twitcharchiver/downloaders/stream.py\<close>. Python floats
  (timestamps, durations) are read as exact real numbers; Python's unbounded integers
  are \<^typ>\<open>int\<close>. A dictionary is an association list in insertion order, updated with
  \<^const>\<open>AList.update\<close> (an existing key keeps its position, a new key goes to the end,
  as in a Python \<^verbatim>\<open>dict\<close>) and read with \<^const>\<open>map_of\<close>.
\<close>

type_synonym byte = "8 word"

text \<open>\<^verbatim>\<open>StreamSegment.Part\<close>: the four attributes the constructor sets.\<close>

record part =
  url :: string
  timestamp :: real
  duration :: real
  title :: string

text \<open>\<^verbatim>\<open>Part.__eq__\<close> (for two parts) and \<^verbatim>\<open>Part.__hash__\<close>; the builtin hash of
  strings is a parameter.\<close>

definition part_eq :: "part \<Rightarrow> part \<Rightarrow> bool" where
  "part_eq p other = (url p = url other)"

definition part_hash :: "(string \<Rightarrow> int) \<Rightarrow> part \<Rightarrow> int" where
  "part_hash str_hash p = str_hash (url p)"

text \<open>\<^verbatim>\<open>StreamSegment\<close>: \<^verbatim>\<open>id\<close>, \<^verbatim>\<open>parts\<close>, \<^verbatim>\<open>duration\<close>.\<close>

record segment =
  id_seg :: int
  parts :: "part list"
  duration_seg :: real

definition StreamSegment :: "int \<Rightarrow> segment" where
  "StreamSegment segment_id = \<lparr>id_seg = segment_id, parts = [], duration_seg = 0\<rparr>"

definition segment_add_part :: "segment \<Rightarrow> part \<Rightarrow> segment" where
  "segment_add_part s p = s\<lparr>parts := parts s @ [p], duration_seg := duration_seg s + duration p\<rparr>"

definition is_full :: "segment \<Rightarrow> bool" where
  "is_full s = (if length (parts s) = 5 then True else False)"

text \<open>The exceptions that the modelled code raises or lets through.\<close>

datatype exn =
    KeyError
  | AttributeError
  | TwitchAPIErrorNotFound
  | OtherError string
  | StreamFetchError
  | UnsupportedStreamPartDuration
  | StreamSegmentDownloadError int
  | StreamDownloadError exn

text \<open>\<^verbatim>\<open>StreamSegmentList\<close>.\<close>

record segment_list =
  segments :: "(int \<times> segment) list"
  current_id :: int
  align_segments :: bool
  stream_created_at :: real

definition StreamSegmentList :: "real \<Rightarrow> bool \<Rightarrow> int \<Rightarrow> segment_list" where
  "StreamSegmentList created_at align start_id =
     \<lparr>segments = [], current_id = start_id + 1, align_segments = align,
      stream_created_at = created_at\<rparr>"

definition get_id_for_part :: "segment_list \<Rightarrow> part \<Rightarrow> int" where
  "get_id_for_part sl p = \<lfloor>(4 + (timestamp p - stream_created_at sl)) / 10\<rfloor>"

definition is_segment_present :: "segment_list \<Rightarrow> int \<Rightarrow> bool" where
  "is_segment_present sl segment_id = (segment_id \<in> fst ` set (segments sl))"

definition get_segment_by_id :: "segment_list \<Rightarrow> int \<Rightarrow> exn + segment" where
  "get_segment_by_id sl segment_id =
     (case map_of (segments sl) segment_id of None \<Rightarrow> Inl KeyError | Some s \<Rightarrow> Inr s)"

text \<open>Lines 39 to 44 of \<^verbatim>\<open>add_part\<close>: the id of the parent segment before the two
  creation steps.\<close>

definition parent_segment_id :: "segment_list \<Rightarrow> part \<Rightarrow> int" where
  "parent_segment_id sl p = (if align_segments sl then get_id_for_part sl p else current_id sl)"

text \<open>The assignment \<^verbatim>\<open>self.current_id = i; self.segments[i] = StreamSegment(i)\<close>, which
  \<^verbatim>\<open>add_part\<close> performs at lines 48-49 and again at lines 54-55.\<close>

definition create_segment :: "segment_list \<Rightarrow> int \<Rightarrow> segment_list" where
  "create_segment sl i =
     sl\<lparr>current_id := i, segments := AList.update i (StreamSegment i) (segments sl)\<rparr>"

definition add_part :: "segment_list \<Rightarrow> part \<Rightarrow> exn + segment_list" where
  "add_part sl p =
     (let i = parent_segment_id sl p;
          sl1 = (if \<not> is_segment_present sl i then create_segment sl i else sl)
      in case get_segment_by_id sl1 i of
           Inl e \<Rightarrow> Inl e
         | Inr s \<Rightarrow>
             (let j = (if length (parts s) = 5 then i + 1 else i);
                  sl2 = (if length (parts s) = 5 then create_segment sl1 (i + 1) else sl1)
              in case map_of (segments sl2) j of
                   None \<Rightarrow> Inl KeyError
                 | Some t \<Rightarrow>
                     Inr (sl2\<lparr>segments := AList.update j (segment_add_part t p) (segments sl2)\<rparr>)))"

text \<open>Feeding a sequence of parts, stopping at the first exception.\<close>

fun add_parts :: "segment_list \<Rightarrow> part list \<Rightarrow> exn + segment_list" where
  "add_parts sl [] = Inr sl"
| "add_parts sl (p # ps) = (case add_part sl p of Inl e \<Rightarrow> Inl e | Inr sl' \<Rightarrow> add_parts sl' ps)"

text \<open>The ids at which one \<^verbatim>\<open>add_part\<close> call runs the \<^verbatim>\<open>StreamSegment\<close> constructor, in
  the order of the two creation steps.\<close>

definition created_by :: "segment_list \<Rightarrow> part \<Rightarrow> int list" where
  "created_by sl p =
     (let i = parent_segment_id sl p in
      if \<not> is_segment_present sl i then [i]
      else case map_of (segments sl) i of
             None \<Rightarrow> []
           | Some s \<Rightarrow> if length (parts s) = 5 then [i + 1] else [])"

fun created_ids :: "segment_list \<Rightarrow> part list \<Rightarrow> int list" where
  "created_ids sl [] = []"
| "created_ids sl (p # ps) =
     created_by sl p @ (case add_part sl p of Inl e \<Rightarrow> [] | Inr sl' \<Rightarrow> created_ids sl' ps)"

text \<open>\<^verbatim>\<open>pop_segment\<close>: \<^verbatim>\<open>dict.pop\<close> without a default raises on a missing key.\<close>

definition pop_segment :: "segment_list \<Rightarrow> int \<Rightarrow> exn + (segment \<times> segment_list)" where
  "pop_segment sl seg_id =
     (case map_of (segments sl) seg_id of
        None \<Rightarrow> Inl KeyError
      | Some s \<Rightarrow> Inr (s, sl\<lparr>segments := AList.delete seg_id (segments sl)\<rparr>))"

section \<open>The capture loop and the segment fetcher\<close>

text \<open>
  What the process cannot decide is an oracle of the world it runs in: the outcome of
  the \<open>k\<close>-th manifest fetch (\<^verbatim>\<open>channel.get_stream_playlist\<close> followed by
  \<^verbatim>\<open>m3u8.loads\<close> and the \<^verbatim>\<open>Part\<close> constructor), of the \<open>k\<close>-th \<^verbatim>\<open>requests.get\<close>,
  the \<open>k\<close>-th reading of the wall clock and whether the \<open>k\<close>-th file move succeeds.
\<close>

datatype playlist_result =
    Playlist "part list"
  | ConnectTimeout
  | NotFound
  | PlaylistError string

text \<open>A response with its status code and body, or a \<^verbatim>\<open>RequestException\<close> raised by
  \<^verbatim>\<open>requests.get\<close> or by \<^verbatim>\<open>iter_content\<close> after the given bytes were written.\<close>

datatype http_result =
    Response nat "byte list"
  | RequestException "byte list"

record world =
  get_stream_playlist :: "nat \<Rightarrow> playlist_result"
  requests_get :: "nat \<Rightarrow> string \<Rightarrow> http_result"
  clock :: "nat \<Rightarrow> real"
  move_succeeds :: "nat \<Rightarrow> bool"

text \<open>The calls of \<^verbatim>\<open>self._log\<close> and of \<^verbatim>\<open>sleep\<close>, in the order the code makes them.\<close>

datatype event =
    Info_offline
  | Debug_fetching_parts
  | Debug_timed_out nat
  | Debug_building_queue
  | Debug_blocking_advertisement part
  | Debug_unsupported_duration real
  | Debug_adding_part part
  | Debug_processing_queue
  | Error_max_attempts int
  | Debug_downloading_segment int string
  | Debug_error_downloading int
  | Debug_segment_completed int
  | Debug_fetching_final
  | Sleep int

text \<open>
  The fields of \<^verbatim>\<open>Stream\<close> that the capture loop reads and writes, the files on disk,
  the number of calls made so far to each oracle, and the trace of events. A Python
  set of parts is a list without two parts of the same url. \<^verbatim>\<open>_download_queue\<close> is
  \<^verbatim>\<open>None\<close> until \<^verbatim>\<open>_do_setup\<close> assigns it at line 301; the passes that \<^verbatim>\<open>_buffer_stream\<close>
  makes (line 324) run before that, so the field is an option. A method called on \<^verbatim>\<open>None\<close>
  raises \<^verbatim>\<open>AttributeError\<close>. \<^verbatim>\<open>StreamSegmentList\<close> defines neither \<^verbatim>\<open>__bool__\<close> nor
  \<^verbatim>\<open>__len__\<close>, so the test \<^verbatim>\<open>if self._download_queue\<close> is true exactly when the queue is
  assigned.
  \<open>temp_dir\<close> stands for \<^verbatim>\<open>Path(tempfile.gettempdir(), 'twitch-archiver', str(self.stream.s_id))\<close>.
\<close>

record stream =
  align_segments_stream :: bool
  incoming_part_buffer :: "part list"
  download_queue :: "segment_list option"
  processed_parts :: "part list"
  last_part_announce :: real
  output_dir :: string
  temp_dir :: string
  files :: "string \<rightharpoonup> byte list"
  n_playlist :: nat
  n_get :: nat
  n_clock :: nat
  n_move :: nat
  trace :: "event list"

type_synonym result = "(exn \<times> stream) + stream"

definition emit :: "event \<Rightarrow> stream \<Rightarrow> stream" where
  "emit e st = st\<lparr>trace := trace st @ [e]\<rparr>"

definition now :: "world \<Rightarrow> stream \<Rightarrow> real \<times> stream" where
  "now w st = (clock w (n_clock st), st\<lparr>n_clock := Suc (n_clock st)\<rparr>)"

text \<open>\<^verbatim>\<open>int(x)\<close> on a float truncates towards zero.\<close>

definition py_int :: "real \<Rightarrow> int" where
  "py_int x = (if x < 0 then \<lceil>x\<rceil> else \<lfloor>x\<rfloor>)"

text \<open>\<^verbatim>\<open>str(n)\<close> for a natural number and the format \<^verbatim>\<open>{n:05d}\<close>, whose width of five
  counts the sign.\<close>

fun str_nat :: "nat \<Rightarrow> string" where
  "str_nat n =
     (if n < 10 then [''0123456789'' ! n]
      else str_nat (n div 10) @ [''0123456789'' ! (n mod 10)])"

declare str_nat.simps [simp del]

definition format_05d :: "int \<Rightarrow> string" where
  "format_05d n =
     (if n < 0
      then ''-'' @ replicate (4 - length (str_nat (nat (- n)))) CHR ''0'' @ str_nat (nat (- n))
      else replicate (5 - length (str_nat (nat n))) CHR ''0'' @ str_nat (nat n))"

definition path_join :: "string \<Rightarrow> string \<Rightarrow> string" where
  "path_join d name = d @ ''/'' @ name"

text \<open>\<^verbatim>\<open>set.add\<close> on a set of parts, whose elements are compared by \<^verbatim>\<open>Part.__eq__\<close>.\<close>

definition part_in :: "part \<Rightarrow> part list \<Rightarrow> bool" where
  "part_in p ps = (url p \<in> set (map url ps))"

definition set_add :: "part \<Rightarrow> part list \<Rightarrow> part list" where
  "set_add p ps = (if part_in p ps then ps else ps @ [p])"

subsection \<open>\<^verbatim>\<open>_fetch_advertised_parts\<close>\<close>

text \<open>Lines 344 to 350: the parts of one parsed manifest.\<close>

fun announce_parts :: "world \<Rightarrow> part list \<Rightarrow> stream \<Rightarrow> stream" where
  "announce_parts w [] st = st"
| "announce_parts w (p # ps) st =
     (if \<not> part_in p (processed_parts st)
      then (let st1 = st\<lparr>processed_parts := set_add p (processed_parts st),
                          incoming_part_buffer := incoming_part_buffer st @ [p]\<rparr>;
                (t, st2) = now w st1
            in announce_parts w ps (st2\<lparr>last_part_announce := t\<rparr>))
      else announce_parts w ps st)"

text \<open>The loop \<^verbatim>\<open>for _ in range(6)\<close> over the attempts still to make.\<close>

fun fetch_attempts :: "world \<Rightarrow> nat list \<Rightarrow> stream \<Rightarrow> result" where
  "fetch_attempts w [] st = Inr st"
| "fetch_attempts w (i # rest) st =
     (if i > 4 then Inl (StreamFetchError, st)
      else (let st1 = emit Debug_fetching_parts st;
                r = get_stream_playlist w (n_playlist st1);
                st2 = st1\<lparr>n_playlist := Suc (n_playlist st1)\<rparr>
            in case r of
                 Playlist ps \<Rightarrow> Inr (announce_parts w ps st2)
               | ConnectTimeout \<Rightarrow> fetch_attempts w rest (emit (Debug_timed_out (i + 1)) st2)
               | NotFound \<Rightarrow> Inl (TwitchAPIErrorNotFound, st2)
               | PlaylistError e \<Rightarrow> Inl (OtherError e, st2)))"

definition fetch_advertised_parts :: "world \<Rightarrow> stream \<Rightarrow> result" where
  "fetch_advertised_parts w st = (let (t, st0) = now w st in fetch_attempts w [0..<6] st0)"

subsection \<open>\<^verbatim>\<open>_build_download_queue\<close>\<close>

text \<open>The loop over the incoming buffer; the second argument is \<^verbatim>\<open>_unsupported_parts\<close>.\<close>

fun build_loop :: "part list \<Rightarrow> part list \<Rightarrow> stream \<Rightarrow> result" where
  "build_loop [] unsupported st = Inr st"
| "build_loop (p # ps) unsupported st =
     (if title p \<noteq> ''live'' then build_loop ps unsupported (emit (Debug_blocking_advertisement p) st)
      else (let anomalous = (align_segments_stream st \<and> duration p \<noteq> 2);
                st1 = (if anomalous then emit (Debug_unsupported_duration (duration p)) st else st);
                unsupported1 = (if anomalous then set_add p unsupported else unsupported)
            in if length unsupported1 > 1 then Inl (UnsupportedStreamPartDuration, st1)
               else (let st2 = emit (Debug_adding_part p) st1
                     in case download_queue st2 of
                          None \<Rightarrow> Inl (AttributeError, st2)
                        | Some q0 \<Rightarrow>
                            (case add_part q0 p of
                               Inl e \<Rightarrow> Inl (e, st2)
                             | Inr q \<Rightarrow>
                                 build_loop ps unsupported1 (st2\<lparr>download_queue := Some q\<rparr>)))))"

definition build_download_queue :: "stream \<Rightarrow> result" where
  "build_download_queue st =
     (let st1 = emit Debug_building_queue st
      in case build_loop (incoming_part_buffer st1) [] st1 of
           Inl x \<Rightarrow> Inl x
         | Inr st2 \<Rightarrow> Inr (st2\<lparr>incoming_part_buffer := []\<rparr>))"

subsection \<open>\<^verbatim>\<open>_download_segment\<close>\<close>

definition append_file :: "string \<Rightarrow> byte list \<Rightarrow> stream \<Rightarrow> stream" where
  "append_file path bs st =
     st\<lparr>files := (files st)(path \<mapsto> (case files st path of None \<Rightarrow> bs | Some old \<Rightarrow> old @ bs))\<rparr>"

text \<open>Modelled from the spec: \<^verbatim>\<open>safe_move\<close> of \<^verbatim>\<open>twitcharchiver.utils\<close>, which is not part
  of the sources at hand. "The temporary file is atomically relocated into the output
  directory"; whether the move fails is the world's choice.\<close>

definition safe_move :: "world \<Rightarrow> string \<Rightarrow> string \<Rightarrow> stream \<Rightarrow> stream + stream" where
  "safe_move w src dst st =
     (let ok = move_succeeds w (n_move st);
          st1 = st\<lparr>n_move := Suc (n_move st)\<rparr>
      in case files st1 src of
           None \<Rightarrow> Inl st1
         | Some bs \<Rightarrow> if ok then Inr (st1\<lparr>files := ((files st1)(src := None))(dst \<mapsto> bs)\<rparr>)
                     else Inl st1)"

text \<open>Lines 404 to 416, the parts of one segment written to the open buffer file. The
  result is \<open>False\<close> when a status other than 200 made the function return.\<close>

fun download_parts :: "world \<Rightarrow> string \<Rightarrow> int \<Rightarrow> part list \<Rightarrow> stream \<Rightarrow> bool \<times> stream" where
  "download_parts w tmp seg [] st = (True, st)"
| "download_parts w tmp seg (p # ps) st =
     (let r = requests_get w (n_get st) (url p);
          st1 = st\<lparr>n_get := Suc (n_get st)\<rparr>
      in case r of
           Response status body \<Rightarrow>
             if status \<noteq> 200 then (False, st1)
             else download_parts w tmp seg ps (append_file tmp body st1)
         | RequestException written \<Rightarrow>
             download_parts w tmp seg ps
               (emit (Debug_error_downloading seg) (append_file tmp written st1)))"

text \<open>The loop \<^verbatim>\<open>for _ in range(6)\<close> of \<^verbatim>\<open>_download_segment\<close>. Every path through its
  body ends in \<^verbatim>\<open>return\<close>, \<^verbatim>\<open>break\<close> or \<^verbatim>\<open>raise\<close>, so the remaining attempts are never
  used.\<close>

fun download_attempts :: "world \<Rightarrow> nat list \<Rightarrow> segment \<Rightarrow> stream \<Rightarrow> result" where
  "download_attempts w [] s st = Inr st"
| "download_attempts w (i # rest) s st =
     (if i > 4 then Inr (emit (Error_max_attempts (id_seg s)) st)
      else (let tmp = path_join (temp_dir st) (format_05d (id_seg s) @ ''.ts'');
                st1 = emit (Debug_downloading_segment (id_seg s) tmp) st;
                st2 = st1\<lparr>files := (files st1)(tmp \<mapsto> [])\<rparr>;
                (completed, st3) = download_parts w tmp (id_seg s) (parts s) st2
            in if \<not> completed then Inr st3
               else (case safe_move w tmp
                            (path_join (output_dir st3) (format_05d (id_seg s) @ ''.ts'')) st3 of
                       Inr st4 \<Rightarrow> Inr (emit (Debug_segment_completed (id_seg s)) st4)
                     | Inl st4 \<Rightarrow> Inl (StreamSegmentDownloadError (id_seg s), st4))))"

definition download_segment :: "world \<Rightarrow> segment \<Rightarrow> stream \<Rightarrow> result" where
  "download_segment w s st = download_attempts w [0..<6] s st"

subsection \<open>\<^verbatim>\<open>_download_queued_segments\<close> and \<^verbatim>\<open>_get_final_segment\<close>\<close>

text \<open>\<^verbatim>\<open>get_completed_segment_ids\<close> reads the attribute \<^verbatim>\<open>v_id\<close> of a segment with five
  parts. \<^verbatim>\<open>StreamSegment\<close> has the attributes \<^verbatim>\<open>parts\<close>, \<^verbatim>\<open>id\<close> and \<^verbatim>\<open>duration\<close> only, so
  the read raises \<^verbatim>\<open>AttributeError\<close>. The keys of the dictionary are distinct, so
  \<^verbatim>\<open>self.segments[_segment]\<close> is the value stored with the key.\<close>

fun completed_ids_loop :: "(int \<times> segment) list \<Rightarrow> int list \<Rightarrow> exn + int list" where
  "completed_ids_loop [] ids = Inr ids"
| "completed_ids_loop ((k, s) # rest) ids =
     (if length (parts s) = 5 then Inl AttributeError else completed_ids_loop rest ids)"

definition get_completed_segment_ids :: "segment_list \<Rightarrow> exn + int list" where
  "get_completed_segment_ids sl = completed_ids_loop (segments sl) []"

fun download_ids :: "world \<Rightarrow> int list \<Rightarrow> stream \<Rightarrow> result" where
  "download_ids w [] st = Inr st"
| "download_ids w (k # ks) st =
     (case download_queue st of
        None \<Rightarrow> Inl (AttributeError, st)
      | Some q0 \<Rightarrow>
          (case pop_segment q0 k of
             Inl e \<Rightarrow> Inl (e, st)
           | Inr (s, q) \<Rightarrow>
               (case download_segment w s (st\<lparr>download_queue := Some q\<rparr>) of
                  Inl x \<Rightarrow> Inl x
                | Inr st1 \<Rightarrow> download_ids w ks st1)))"

definition download_queued_segments :: "world \<Rightarrow> stream \<Rightarrow> result" where
  "download_queued_segments w st =
     (let st1 = emit Debug_processing_queue st
      in case download_queue st1 of
           None \<Rightarrow> Inl (AttributeError, st1)
         | Some q \<Rightarrow>
             (case get_completed_segment_ids q of
                Inl e \<Rightarrow> Inl (e, st1)
              | Inr ks \<Rightarrow> download_ids w ks st1))"

definition get_final_segment :: "world \<Rightarrow> stream \<Rightarrow> result" where
  "get_final_segment w st =
     (case download_queue st of
        None \<Rightarrow> Inl (AttributeError, st)
      | Some q \<Rightarrow>
          if is_segment_present q (current_id q)
          then (let st1 = emit Debug_fetching_final st
                in case get_segment_by_id q (current_id q) of
                     Inl e \<Rightarrow> Inl (e, st1)
                   | Inr s \<Rightarrow> download_segment w s st1)
          else Inr st)"

subsection \<open>\<^verbatim>\<open>single_download_pass\<close> and \<^verbatim>\<open>start\<close>\<close>

definition pass_body :: "world \<Rightarrow> stream \<Rightarrow> result" where
  "pass_body w st =
     (case fetch_advertised_parts w st of
        Inl x \<Rightarrow> Inl x
      | Inr st1 \<Rightarrow>
          (case build_download_queue st1 of
             Inl x \<Rightarrow> Inl x
           | Inr st2 \<Rightarrow> download_queued_segments w st2))"

definition single_download_pass :: "world \<Rightarrow> stream \<Rightarrow> result" where
  "single_download_pass w st =
     (case pass_body w st of
        Inr st1 \<Rightarrow> Inr st1
      | Inl (e, st1) \<Rightarrow>
          if e = TwitchAPIErrorNotFound
          then (let st2 = emit Info_offline st1
                in case download_queue st2 of
                     None \<Rightarrow> Inr st2
                   | Some q \<Rightarrow> get_final_segment w st2)
          else Inl (StreamDownloadError e, st1))"

text \<open>Modelled from the spec: \<^verbatim>\<open>time_since_date\<close> of \<^verbatim>\<open>twitcharchiver.utils\<close>, which is not
  part of the sources at hand: the "elapsed time since the last successful part
  announcement", one reading of the clock minus the given timestamp.\<close>

definition time_since_date :: "world \<Rightarrow> real \<Rightarrow> stream \<Rightarrow> real \<times> stream" where
  "time_since_date w ts st = (let (t, st1) = now w st in (t - ts, st1))"

text \<open>The loop \<^verbatim>\<open>while True\<close> of \<^verbatim>\<open>start\<close>, with the number of passes it may still make:
  \<open>None\<close> says that the loop was still running after that many passes.
  \<open>start_timestamp\<close> is read once, before the loop (line 219).\<close>

fun start_loop :: "nat \<Rightarrow> world \<Rightarrow> real \<Rightarrow> stream \<Rightarrow> result option" where
  "start_loop 0 w start_timestamp st = None"
| "start_loop (Suc n) w start_timestamp st =
     (case single_download_pass w st of
        Inl x \<Rightarrow> Some (Inl x)
      | Inr st1 \<Rightarrow>
          (let (since, st2) = time_since_date w (last_part_announce st1) st1
           in if since > 20 then Some (get_final_segment w st2)
              else (let (t, st3) = now w st2;
                        loop_time = py_int (t - start_timestamp)
                    in start_loop n w start_timestamp
                         (if loop_time < 4 then emit (Sleep (4 - loop_time)) st3 else st3))))"

definition start :: "nat \<Rightarrow> world \<Rightarrow> stream \<Rightarrow> result option" where
  "start n w st = (let (start_timestamp, st0) = now w st in start_loop n w start_timestamp st0)"

text \<open>The segment stored at \<^verbatim>\<open>current_id\<close>, when the queue is assigned and holds one there.\<close>

definition trailing_segment :: "stream \<Rightarrow> segment option" where
  "trailing_segment st =
     (case download_queue st of None \<Rightarrow> None | Some q \<Rightarrow> map_of (segments q) (current_id q))"

text \<open>The state in which a call ended, whether it returned or raised.\<close>

definition state_of :: "result \<Rightarrow> stream" where
  "state_of r = (case r of Inl (e, st) \<Rightarrow> st | Inr st \<Rightarrow> st)"

text \<open>The bytes that the requests numbered \<open>k\<close>, \<open>k + 1\<close>, ... deliver for a list of parts, and
  whether all of them answer with status 200.\<close>

fun payloads :: "world \<Rightarrow> nat \<Rightarrow> part list \<Rightarrow> byte list" where
  "payloads w k [] = []"
| "payloads w k (p # ps) =
     (case requests_get w k (url p) of
        Response status body \<Rightarrow> body
      | RequestException written \<Rightarrow> written) @ payloads w (Suc k) ps"

fun all_answered :: "world \<Rightarrow> nat \<Rightarrow> part list \<Rightarrow> bool" where
  "all_answered w k [] = True"
| "all_answered w k (p # ps) =
     ((case requests_get w k (url p) of
         Response status body \<Rightarrow> status = 200
       | RequestException written \<Rightarrow> False) \<and> all_answered w (Suc k) ps)"

section \<open>Concrete inputs\<close>

text \<open>A content part of the nominal duration, and a list whose segment 1 is full.\<close>

definition live_part :: "string \<Rightarrow> real \<Rightarrow> part" where
  "live_part u t = \<lparr>url = u, timestamp = t, duration = 2, title = ''live''\<rparr>"

definition full_list :: segment_list where
  "full_list =
     \<lparr>segments = [(1, \<lparr>id_seg = 1,
                        parts = [live_part ''a'' 6, live_part ''b'' 8, live_part ''c'' 10,
                                 live_part ''d'' 12, live_part ''e'' 14],
                        duration_seg = 10\<rparr>)],
      current_id = 1, align_segments = True, stream_created_at = 0\<rparr>"

text \<open>A stream right after its setup, around a given download queue.\<close>

definition stream0 :: "segment_list \<Rightarrow> stream" where
  "stream0 q =
     \<lparr>align_segments_stream = align_segments q, incoming_part_buffer = [],
      download_queue = Some q,
      processed_parts = [], last_part_announce = 100, output_dir = ''out'', temp_dir = ''tmp'',
      files = Map.empty, n_playlist = 0, n_get = 0, n_clock = 0, n_move = 0, trace = []\<rparr>"

text \<open>A world whose manifest advertises the url \<^verbatim>\<open>a\<close> again, with other fields.\<close>

definition readvertising_world :: world where
  "readvertising_world =
     \<lparr>get_stream_playlist =
        (\<lambda>k. Playlist [\<lparr>url = ''a'', timestamp = 99, duration = 3, title = ''other''\<rparr>]),
      requests_get = (\<lambda>k u. Response 200 []),
      clock = (\<lambda>k. 100),
      move_succeeds = (\<lambda>k. True)\<rparr>"

text \<open>A world in which the first request fails before any byte arrives and every later
  request answers 200, with two bytes for the url \<^verbatim>\<open>a\<close> and one byte for any other.\<close>

definition flaky_world :: world where
  "flaky_world =
     \<lparr>get_stream_playlist = (\<lambda>k. NotFound),
      requests_get =
        (\<lambda>k u. if k = 0 then RequestException []
               else Response 200 (if u = ''a'' then [1, 2] else [3])),
      clock = (\<lambda>k. 100),
      move_succeeds = (\<lambda>k. True)\<rparr>"

definition two_part_segment :: segment where
  "two_part_segment =
     \<lparr>id_seg = 1, parts = [live_part ''a'' 6, live_part ''b'' 8], duration_seg = 4\<rparr>"

text \<open>Worlds whose broadcast has ended: every manifest fetch is answered not-found. In
  the first the clock stands 30 seconds after the last announcement of \<^const>\<open>stream0\<close>. In
  the second it stands 5 seconds after it during the first pass, the second pass starts
  at 109, and the clock reads 125 from then on. The third is the first with a file system
  that refuses every move.\<close>

definition offline_world :: world where
  "offline_world =
     \<lparr>get_stream_playlist = (\<lambda>k. NotFound),
      requests_get = (\<lambda>k u. Response 200 [7]),
      clock = (\<lambda>k. 130),
      move_succeeds = (\<lambda>k. True)\<rparr>"

definition lingering_world :: world where
  "lingering_world =
     \<lparr>get_stream_playlist = (\<lambda>k. NotFound),
      requests_get = (\<lambda>k u. Response 200 [7]),
      clock = (\<lambda>k. if k < 4 then 105 else if k = 4 then 109 else 125),
      move_succeeds = (\<lambda>k. True)\<rparr>"

definition readonly_world :: world where
  "readonly_world =
     \<lparr>get_stream_playlist = (\<lambda>k. NotFound),
      requests_get = (\<lambda>k u. Response 200 [7]),
      clock = (\<lambda>k. 130),
      move_succeeds = (\<lambda>k. False)\<rparr>"

definition trailing_list :: segment_list where
  "trailing_list =
     \<lparr>segments = [(1, \<lparr>id_seg = 1, parts = [live_part ''a'' 6], duration_seg = 2\<rparr>)],
      current_id = 1, align_segments = True, stream_created_at = 0\<rparr>"

text \<open>A world whose manifest is empty at every fetch. The clock reads 100 when \<^verbatim>\<open>start\<close>
  is entered; the first pass runs from 100 to 101, the second from 104 to 105, and the
  third ends at 125.\<close>

definition quiet_world :: world where
  "quiet_world =
     \<lparr>get_stream_playlist = (\<lambda>k. Playlist []),
      requests_get = (\<lambda>k u. Response 200 []),
      clock = (\<lambda>k. if k < 9 then [100, 100, 101, 101, 104, 105, 105, 105, 125] ! k else 125),
      move_succeeds = (\<lambda>k. True)\<rparr>"

section \<open>Basic facts about the segment list\<close>

lemma present_iff: "is_segment_present sl i \<longleftrightarrow> map_of (segments sl) i \<noteq> None"
  by (simp add: is_segment_present_def map_of_eq_None_iff)

lemma map_of_create:
  "map_of (segments (create_segment sl i)) = (map_of (segments sl))(i \<mapsto> StreamSegment i)"
  by (simp add: create_segment_def update_conv')

lemma add_part_absent:
  assumes "map_of (segments sl) (parent_segment_id sl p) = None"
  shows "add_part sl p = Inr (sl\<lparr>current_id := parent_segment_id sl p,
           segments := AList.update (parent_segment_id sl p)
             (segment_add_part (StreamSegment (parent_segment_id sl p)) p) (segments sl)\<rparr>)"
  using assms
  by (simp add: add_part_def Let_def present_iff get_segment_by_id_def map_of_create
      StreamSegment_def create_segment_def update_conv')

lemma add_part_full:
  assumes "map_of (segments sl) (parent_segment_id sl p) = Some s" "length (parts s) = 5"
  shows "add_part sl p = Inr (sl\<lparr>current_id := parent_segment_id sl p + 1,
           segments := AList.update (parent_segment_id sl p + 1)
             (segment_add_part (StreamSegment (parent_segment_id sl p + 1)) p) (segments sl)\<rparr>)"
  using assms
  by (simp add: add_part_def Let_def present_iff get_segment_by_id_def
      create_segment_def update_conv')

lemma add_part_room:
  assumes "map_of (segments sl) (parent_segment_id sl p) = Some s" "length (parts s) \<noteq> 5"
  shows "add_part sl p = Inr (sl\<lparr>segments := AList.update (parent_segment_id sl p)
             (segment_add_part s p) (segments sl)\<rparr>)"
  using assms
  by (simp add: add_part_def Let_def present_iff get_segment_by_id_def)

lemma add_part_total: "\<exists>sl'. add_part sl p = Inr sl'"
proof (cases "map_of (segments sl) (parent_segment_id sl p)")
  case None
  then show ?thesis by (simp add: add_part_absent)
next
  case (Some s)
  then show ?thesis by (cases "length (parts s) = 5") (simp_all add: add_part_full add_part_room)
qed

lemma add_part_fixed:
  assumes "add_part sl p = Inr sl'"
  shows "align_segments sl' = align_segments sl \<and> stream_created_at sl' = stream_created_at sl"
proof (cases "map_of (segments sl) (parent_segment_id sl p)")
  case None
  with assms show ?thesis by (auto simp add: add_part_absent)
next
  case (Some s)
  with assms show ?thesis by (cases "length (parts s) = 5") (auto simp add: add_part_full add_part_room)
qed

lemma add_part_keys:
  assumes "add_part sl p = Inr sl'"
  shows "fst ` set (segments sl') = fst ` set (segments sl) \<union> set (created_by sl p)"
proof (cases "map_of (segments sl) (parent_segment_id sl p)")
  case None
  with assms have "sl' = sl\<lparr>current_id := parent_segment_id sl p,
           segments := AList.update (parent_segment_id sl p)
             (segment_add_part (StreamSegment (parent_segment_id sl p)) p) (segments sl)\<rparr>"
    by (simp add: add_part_absent)
  moreover from None have "created_by sl p = [parent_segment_id sl p]"
    by (simp add: created_by_def present_iff)
  ultimately show ?thesis by (simp add: dom_update)
next
  case (Some s)
  then have pres: "parent_segment_id sl p \<in> fst ` set (segments sl)"
    by (metis map_of_eq_None_iff option.distinct(1))
  show ?thesis
  proof (cases "length (parts s) = 5")
    case True
    with Some assms have "sl' = sl\<lparr>current_id := parent_segment_id sl p + 1,
           segments := AList.update (parent_segment_id sl p + 1)
             (segment_add_part (StreamSegment (parent_segment_id sl p + 1)) p) (segments sl)\<rparr>"
      by (simp add: add_part_full)
    moreover from Some True have "created_by sl p = [parent_segment_id sl p + 1]"
      by (simp add: created_by_def present_iff)
    ultimately show ?thesis by (simp add: dom_update)
  next
    case False
    with Some assms have "sl' = sl\<lparr>segments := AList.update (parent_segment_id sl p)
             (segment_add_part s p) (segments sl)\<rparr>"
      by (simp add: add_part_room)
    moreover from Some False have "created_by sl p = []"
      by (simp add: created_by_def present_iff)
    ultimately show ?thesis using pres by (simp add: dom_update insert_absorb)
  qed
qed

lemma add_part_current:
  assumes "add_part sl p = Inr sl'"
  shows "current_id sl' = last (current_id sl # created_by sl p)"
proof (cases "map_of (segments sl) (parent_segment_id sl p)")
  case None
  with assms show ?thesis
    by (auto simp add: add_part_absent created_by_def present_iff)
next
  case (Some s)
  with assms show ?thesis
    by (cases "length (parts s) = 5")
       (auto simp add: add_part_full add_part_room created_by_def present_iff)
qed

lemma add_parts_total: "\<exists>sl'. add_parts sl ps = Inr sl'"
proof (induction ps arbitrary: sl)
  case Nil
  show ?case by simp
next
  case (Cons p ps)
  obtain sl1 where "add_part sl p = Inr sl1" using add_part_total by blast
  with Cons show ?case by simp
qed

lemmas seg_defs = StreamSegmentList_def add_part_def Let_def parent_segment_id_def get_id_for_part_def
  is_segment_present_def create_segment_def get_segment_by_id_def StreamSegment_def segment_add_part_def
  live_part_def created_by_def

lemma get_id_mono:
  "timestamp p \<le> timestamp q \<Longrightarrow> get_id_for_part sl p \<le> get_id_for_part sl q"
  by (simp add: get_id_for_part_def floor_mono divide_right_mono)

lemma get_id_fixed:
  "stream_created_at sl' = stream_created_at sl \<Longrightarrow> get_id_for_part sl' p = get_id_for_part sl p"
  by (simp add: get_id_for_part_def)

lemma created_by_cases:
  "created_by sl p = [] \<and> is_segment_present sl (parent_segment_id sl p)
   \<or> created_by sl p = [parent_segment_id sl p] \<and> \<not> is_segment_present sl (parent_segment_id sl p)
   \<or> created_by sl p = [parent_segment_id sl p + 1] \<and> is_segment_present sl (parent_segment_id sl p)"
  by (auto simp add: created_by_def Let_def split: option.splits)

lemma created_ids_step:
  assumes "add_part sl p = Inr sl1"
  shows "created_ids sl (p # ps) = created_by sl p @ created_ids sl1 ps"
    and "add_parts sl (p # ps) = add_parts sl1 ps"
  using assms by simp_all

lemma created_plain:
  assumes "\<not> align_segments sl"
  shows "sorted (current_id sl # created_ids sl ps)
       \<and> (\<forall>sl'. add_parts sl ps = Inr sl' \<longrightarrow> current_id sl' = last (current_id sl # created_ids sl ps))"
  using assms
proof (induction ps arbitrary: sl)
  case Nil
  show ?case by simp
next
  case (Cons p ps)
  obtain sl1 where s1: "add_part sl p = Inr sl1" using add_part_total by blast
  have al: "\<not> align_segments sl1" using add_part_fixed [OF s1] Cons.prems by simp
  have cur: "current_id sl1 = last (current_id sl # created_by sl p)" by (rule add_part_current [OF s1])
  have tgt: "parent_segment_id sl p = current_id sl" using Cons.prems by (simp add: parent_segment_id_def)
  note ih = Cons.IH [OF al]
  from created_by_cases [of sl p] show ?case
  proof (elim disjE conjE)
    assume c: "created_by sl p = []"
    with cur have "current_id sl1 = current_id sl" by simp
    with ih c show ?thesis by (fastforce simp add: s1)
  next
    assume c: "created_by sl p = [parent_segment_id sl p]"
    with cur tgt have "current_id sl1 = current_id sl" by simp
    with ih c tgt show ?thesis by (fastforce simp add: s1)
  next
    assume c: "created_by sl p = [parent_segment_id sl p + 1]"
    with cur tgt have e: "current_id sl1 = current_id sl + 1" by simp
    with ih have "sorted (current_id sl # (current_id sl + 1) # created_ids sl1 ps)" by fastforce
    with ih c tgt e show ?thesis by (fastforce simp add: s1)
  qed
qed

lemma created_aligned:
  assumes "align_segments sl" and "is_segment_present sl lo"
    and "\<forall>k \<in> fst ` set (segments sl). k \<le> current_id sl"
    and "current_id sl \<le> lo + 1"
    and "sorted (map timestamp ps)"
    and "\<forall>p \<in> set ps. lo \<le> get_id_for_part sl p"
  shows "sorted (current_id sl # created_ids sl ps)
       \<and> (\<forall>sl'. add_parts sl ps = Inr sl' \<longrightarrow> current_id sl' = last (current_id sl # created_ids sl ps))"
  using assms
proof (induction ps arbitrary: sl lo)
  case Nil
  show ?case by simp
next
  case (Cons p ps)
  obtain sl1 where s1: "add_part sl p = Inr sl1" using add_part_total by blast
  have fx: "align_segments sl1" "stream_created_at sl1 = stream_created_at sl"
    using add_part_fixed [OF s1] Cons.prems(1) by simp_all
  have cur: "current_id sl1 = last (current_id sl # created_by sl p)" by (rule add_part_current [OF s1])
  have keys: "fst ` set (segments sl1) = fst ` set (segments sl) \<union> set (created_by sl p)"
    by (rule add_part_keys [OF s1])
  define t where "t = get_id_for_part sl p"
  have tgt: "parent_segment_id sl p = t" using Cons.prems(1) by (simp add: parent_segment_id_def t_def)
  have lo_t: "lo \<le> t" using Cons.prems(6) by (simp add: t_def)
  have lo_in: "lo \<in> fst ` set (segments sl)" using Cons.prems(2) by (simp add: is_segment_present_def)
  have sorted_ps: "sorted (map timestamp ps)" using Cons.prems(5) by simp
  have later: "\<forall>q \<in> set ps. t \<le> get_id_for_part sl1 q"
  proof
    fix q assume "q \<in> set ps"
    with Cons.prems(5) have "timestamp p \<le> timestamp q" by auto
    then show "t \<le> get_id_for_part sl1 q"
      unfolding t_def get_id_fixed [OF fx(2)] by (rule get_id_mono)
  qed
  from created_by_cases [of sl p] show ?case
  proof (elim disjE conjE)
    assume c: "created_by sl p = []" and pr: "is_segment_present sl (parent_segment_id sl p)"
    from c cur have e: "current_id sl1 = current_id sl" by simp
    have "sorted (current_id sl1 # created_ids sl1 ps)
       \<and> (\<forall>sl'. add_parts sl1 ps = Inr sl' \<longrightarrow> current_id sl' = last (current_id sl1 # created_ids sl1 ps))"
    proof (rule Cons.IH [OF fx(1) _ _ _ sorted_ps later])
      show "is_segment_present sl1 t" using pr tgt keys by (simp add: is_segment_present_def)
      show "\<forall>k\<in>fst ` set (segments sl1). k \<le> current_id sl1" using Cons.prems(3) keys c e by simp
      show "current_id sl1 \<le> t + 1" using Cons.prems(4) lo_t e by simp
    qed
    with c e show ?thesis by (fastforce simp add: s1)
  next
    assume c: "created_by sl p = [parent_segment_id sl p]"
      and pr: "\<not> is_segment_present sl (parent_segment_id sl p)"
    from c cur tgt have e: "current_id sl1 = t" by simp
    from pr tgt lo_in have "t \<noteq> lo" by (auto simp add: is_segment_present_def)
    with lo_t Cons.prems(4) have ge: "current_id sl \<le> t" by simp
    have "sorted (current_id sl1 # created_ids sl1 ps)
       \<and> (\<forall>sl'. add_parts sl1 ps = Inr sl' \<longrightarrow> current_id sl' = last (current_id sl1 # created_ids sl1 ps))"
    proof (rule Cons.IH [OF fx(1) _ _ _ sorted_ps later])
      show "is_segment_present sl1 t" using keys c tgt by (simp add: is_segment_present_def)
      show "\<forall>k\<in>fst ` set (segments sl1). k \<le> current_id sl1"
        using Cons.prems(3) keys c e tgt ge by auto
      show "current_id sl1 \<le> t + 1" using e by simp
    qed
    with c e tgt ge show ?thesis by (fastforce simp add: s1)
  next
    assume c: "created_by sl p = [parent_segment_id sl p + 1]"
      and pr: "is_segment_present sl (parent_segment_id sl p)"
    from c cur tgt have e: "current_id sl1 = t + 1" by simp
    from lo_t Cons.prems(4) have ge: "current_id sl \<le> t + 1" by simp
    have "sorted (current_id sl1 # created_ids sl1 ps)
       \<and> (\<forall>sl'. add_parts sl1 ps = Inr sl' \<longrightarrow> current_id sl' = last (current_id sl1 # created_ids sl1 ps))"
    proof (rule Cons.IH [OF fx(1) _ _ _ sorted_ps later])
      show "is_segment_present sl1 t" using keys pr tgt by (simp add: is_segment_present_def)
      show "\<forall>k\<in>fst ` set (segments sl1). k \<le> current_id sl1"
        using Cons.prems(3) keys c e tgt ge by auto
      show "current_id sl1 \<le> t + 1" using e by simp
    qed
    with c e tgt ge show ?thesis by (fastforce simp add: s1)
  qed
qed

lemma sorted_last_Max:
  fixes xs :: "int list"
  assumes "sorted xs" "xs \<noteq> []"
  shows "Max (set xs) = last xs"
proof -
  have "last xs \<in> set xs" using assms(2) by simp
  moreover have "\<forall>y \<in> set xs. y \<le> last xs"
    using assms by (metis order_refl in_set_conv_nth sorted_iff_nth_mono last_conv_nth
        length_greater_0_conv less_Suc_eq_le Suc_pred' not_less)
  ultimately show ?thesis by (simp add: Max_eqI)
qed

section \<open>The claims about the segment list\<close>

text \<open>
  C1. In alignment mode the id that \<^verbatim>\<open>add_part\<close> computes for a part is
  \<open>\<lfloor>(4 + (timestamp - stream_created_at)) / 10\<rfloor>\<close>, and it is a function of the part's
  timestamp and of the broadcast start time alone: the segments held, the current id and
  the other fields of the part do not change it.
\<close>

theorem alignment_target_id:
  assumes "align_segments sl"
  shows "parent_segment_id sl p = \<lfloor>(4 + (timestamp p - stream_created_at sl)) / 10\<rfloor>
       \<and> parent_segment_id (sl\<lparr>segments := segs, current_id := c\<rparr>)
            (p\<lparr>url := u, duration := d, title := t\<rparr>) = parent_segment_id sl p"
  using assms by (simp add: parent_segment_id_def get_id_for_part_def)

theorem alignment_target_id_witness:
  "align_segments (StreamSegmentList 0 True 0)
   \<and> parent_segment_id (StreamSegmentList 0 True 0) (live_part ''a'' 6) = 1
   \<and> parent_segment_id (StreamSegmentList 0 True 0) (live_part ''a'' 6) =
       parent_segment_id ((StreamSegmentList 0 True 0)\<lparr>segments := [], current_id := 7\<rparr>)
         ((live_part ''a'' 6)\<lparr>url := ''b'', duration := 3, title := ''x''\<rparr>)"
  using alignment_target_id [where sl = "StreamSegmentList 0 True 0" and p = "live_part ''a'' 6"
      and segs = "[]" and c = 7 and u = "''b''" and d = 3 and t = "''x''"]
  by (simp add: StreamSegmentList_def live_part_def)

text \<open>
  C3. When the segment at the computed id holds exactly five parts, \<^verbatim>\<open>add_part\<close> puts the
  part into a segment newly created at that id plus one, which then holds this part
  alone, and leaves the full segment as it was.
\<close>

theorem full_segment_overflow:
  assumes "map_of (segments sl) (parent_segment_id sl p) = Some s"
    and "length (parts s) = 5"
  shows "\<exists>sl'. add_part sl p = Inr sl'
           \<and> map_of (segments sl') (parent_segment_id sl p + 1) =
               Some \<lparr>id_seg = parent_segment_id sl p + 1, parts = [p], duration_seg = duration p\<rparr>
           \<and> map_of (segments sl') (parent_segment_id sl p) = Some s
           \<and> current_id sl' = parent_segment_id sl p + 1"
  using assms
  by (simp add: add_part_full update_conv' segment_add_part_def StreamSegment_def)

theorem full_segment_overflow_witness:
  "map_of (segments full_list) (parent_segment_id full_list (live_part ''f'' 15)) =
     Some \<lparr>id_seg = 1,
           parts = [live_part ''a'' 6, live_part ''b'' 8, live_part ''c'' 10,
                    live_part ''d'' 12, live_part ''e'' 14],
           duration_seg = 10\<rparr>
   \<and> (\<exists>sl'. add_part full_list (live_part ''f'' 15) = Inr sl'
         \<and> map_of (segments sl') 2 =
             Some \<lparr>id_seg = 2, parts = [live_part ''f'' 15], duration_seg = 2\<rparr>
         \<and> current_id sl' = 2)"
proof -
  have t: "parent_segment_id full_list (live_part ''f'' 15) = 1"
    by (simp add: full_list_def parent_segment_id_def get_id_for_part_def live_part_def)
  have h: "map_of (segments full_list) (parent_segment_id full_list (live_part ''f'' 15)) =
     Some \<lparr>id_seg = 1,
           parts = [live_part ''a'' 6, live_part ''b'' 8, live_part ''c'' 10,
                    live_part ''d'' 12, live_part ''e'' 14],
           duration_seg = 10\<rparr>"
    by (simp add: t) (simp add: full_list_def)
  from full_segment_overflow [OF h] t h show ?thesis by (auto simp add: live_part_def)
qed

text \<open>
  C4 as stated fails: a part of an earlier time window that arrives after a part of a
  later one creates a smaller id, and \<^verbatim>\<open>current_id\<close> follows it down.
\<close>

theorem creation_order_counterexample:
  "created_ids (StreamSegmentList 0 True 0) [live_part ''a'' 20, live_part ''b'' 2] = [2, 0]
   \<and> \<not> sorted (created_ids (StreamSegmentList 0 True 0) [live_part ''a'' 20, live_part ''b'' 2])
   \<and> add_parts (StreamSegmentList 0 True 0) [live_part ''a'' 20, live_part ''b'' 2] =
       Inr \<lparr>segments = [(2, \<lparr>id_seg = 2, parts = [live_part ''a'' 20], duration_seg = 2\<rparr>),
                         (0, \<lparr>id_seg = 0, parts = [live_part ''b'' 2], duration_seg = 2\<rparr>)],
            current_id = 0, align_segments = True, stream_created_at = 0\<rparr>"
  by (simp add: seg_defs)

text \<open>
  C4, amended. On a freshly constructed list, without alignment, or with alignment and
  parts fed in non-decreasing order of timestamp, every sequence of at least one
  \<^verbatim>\<open>add_part\<close> call returns, the ids at which segments were created are in non-decreasing
  order of creation, and \<^verbatim>\<open>current_id\<close> is the highest id created.
\<close>

theorem creation_order:
  assumes "a \<longrightarrow> sorted (map timestamp ps)" and "ps \<noteq> []"
  shows "\<exists>sl'. add_parts (StreamSegmentList c a s) ps = Inr sl'
           \<and> sorted (created_ids (StreamSegmentList c a s) ps)
           \<and> created_ids (StreamSegmentList c a s) ps \<noteq> []
           \<and> current_id sl' = Max (set (created_ids (StreamSegmentList c a s) ps))"
proof -
  define L where "L = StreamSegmentList c a s"
  obtain p qs where ps: "ps = p # qs" using assms(2) by (cases ps) auto
  obtain sl1 where s1: "add_part L p = Inr sl1" using add_part_total by blast
  obtain sl' where s': "add_parts sl1 qs = Inr sl'" using add_parts_total by blast
  have L_simps: "segments L = []" "align_segments L = a" "stream_created_at L = c"
    by (simp_all add: L_def StreamSegmentList_def)
  have np: "\<not> is_segment_present L (parent_segment_id L p)"
    by (simp add: is_segment_present_def L_simps)
  have cb: "created_by L p = [parent_segment_id L p]"
    using np by (simp add: created_by_def)
  have cur1: "current_id sl1 = parent_segment_id L p"
    using add_part_current [OF s1] cb by simp
  have keys1: "fst ` set (segments sl1) = {parent_segment_id L p}"
    using add_part_keys [OF s1] cb by (simp add: L_simps)
  have fx: "align_segments sl1 = a" "stream_created_at sl1 = stream_created_at L"
    using add_part_fixed [OF s1] by (simp_all add: L_simps)
  have rest: "sorted (current_id sl1 # created_ids sl1 qs)
       \<and> (\<forall>sl'. add_parts sl1 qs = Inr sl' \<longrightarrow> current_id sl' = last (current_id sl1 # created_ids sl1 qs))"
  proof (cases a)
    case False
    then show ?thesis using created_plain [of sl1 qs] fx by simp
  next
    case True
    then have tgt: "parent_segment_id L p = get_id_for_part L p"
      by (simp add: parent_segment_id_def L_simps)
    from True assms(1) ps have srt: "sorted (map timestamp (p # qs))" by simp
    show ?thesis
    proof (rule created_aligned [where lo = "get_id_for_part L p"])
      show "align_segments sl1" using True fx by simp
      show "is_segment_present sl1 (get_id_for_part L p)"
        using keys1 tgt by (simp add: is_segment_present_def)
      show "\<forall>k\<in>fst ` set (segments sl1). k \<le> current_id sl1" using keys1 cur1 by simp
      show "current_id sl1 \<le> get_id_for_part L p + 1" using cur1 tgt by simp
      show "sorted (map timestamp qs)" using srt by simp
      show "\<forall>q\<in>set qs. get_id_for_part L p \<le> get_id_for_part sl1 q"
      proof
        fix q assume "q \<in> set qs"
        with srt have "timestamp p \<le> timestamp q" by auto
        then show "get_id_for_part L p \<le> get_id_for_part sl1 q"
          unfolding get_id_fixed [OF fx(2)] by (rule get_id_mono)
      qed
    qed
  qed
  have ids: "created_ids L ps = current_id sl1 # created_ids sl1 qs"
    using ps s1 cb cur1 by simp
  have fin: "add_parts L ps = Inr sl'" using ps s1 s' by simp
  have "current_id sl' = last (created_ids L ps)" using rest s' ids by simp
  also have "\<dots> = Max (set (created_ids L ps))"
    using sorted_last_Max [of "created_ids L ps"] rest ids by simp
  finally have "current_id sl' = Max (set (created_ids L ps))" .
  with fin rest ids show ?thesis unfolding L_def by auto
qed

theorem creation_order_witness:
  "sorted (map timestamp [live_part ''a'' 2, live_part ''b'' 20])
   \<and> [live_part ''a'' 2, live_part ''b'' 20] \<noteq> []
   \<and> (\<exists>sl'. add_parts (StreamSegmentList 0 True 0) [live_part ''a'' 2, live_part ''b'' 20] = Inr sl'
           \<and> sorted (created_ids (StreamSegmentList 0 True 0) [live_part ''a'' 2, live_part ''b'' 20])
           \<and> created_ids (StreamSegmentList 0 True 0) [live_part ''a'' 2, live_part ''b'' 20] \<noteq> []
           \<and> current_id sl' =
               Max (set (created_ids (StreamSegmentList 0 True 0) [live_part ''a'' 2, live_part ''b'' 20])))"
proof -
  have h: "True \<longrightarrow> sorted (map timestamp [live_part ''a'' 2, live_part ''b'' 20])"
    by (simp add: live_part_def)
  then have h': "sorted (map timestamp [live_part ''a'' 2, live_part ''b'' 20])" by simp
  have n: "[live_part ''a'' 2, live_part ''b'' 20] \<noteq> []" by simp
  from creation_order [OF h n, of 0 0] h' n show ?thesis by blast
qed

text \<open>
  C5 fails on the code: the second creation step of \<^verbatim>\<open>add_part\<close> (lines 53 to 55) assigns
  a new segment to the id plus one without the membership test that guards the first
  creation step (line 47). After six parts of one time window segment 2 holds the sixth;
  the seventh part of that window replaces segment 2, and the sixth part is gone.
\<close>

theorem add_part_discards_overflow_segment:
  "\<exists>sl6 sl7.
     add_parts (StreamSegmentList 0 True 0)
       [live_part ''a'' 6, live_part ''b'' 8, live_part ''c'' 10, live_part ''d'' 12,
        live_part ''e'' 14, live_part ''f'' 15] = Inr sl6
     \<and> map_of (segments sl6) 2 = Some \<lparr>id_seg = 2, parts = [live_part ''f'' 15], duration_seg = 2\<rparr>
     \<and> add_part sl6 (live_part ''g'' (31 / 2)) = Inr sl7
     \<and> map_of (segments sl7) 2 = Some \<lparr>id_seg = 2, parts = [live_part ''g'' (31 / 2)], duration_seg = 2\<rparr>"
  by (simp add: seg_defs)

text \<open>
  C8 as stated fails: the parts at \<open>T + 2\<close> and \<open>T + 4\<close> fall into segment 0, so segment 1
  holds three parts and is not full.
\<close>

theorem five_parts_scenario_counterexample:
  "parent_segment_id (StreamSegmentList 1000 True 0) (live_part ''a'' 1002) = 0
   \<and> parent_segment_id (StreamSegmentList 1000 True 0) (live_part ''b'' 1004) = 0
   \<and> add_parts (StreamSegmentList 1000 True 0)
       [live_part ''a'' 1002, live_part ''b'' 1004, live_part ''c'' 1006, live_part ''d'' 1008,
        live_part ''e'' 1010] =
       Inr \<lparr>segments =
              [(0, \<lparr>id_seg = 0, parts = [live_part ''a'' 1002, live_part ''b'' 1004],
                    duration_seg = 4\<rparr>),
               (1, \<lparr>id_seg = 1,
                    parts = [live_part ''c'' 1006, live_part ''d'' 1008, live_part ''e'' 1010],
                    duration_seg = 6\<rparr>)],
            current_id = 1, align_segments = True, stream_created_at = 1000\<rparr>
   \<and> \<not> is_full \<lparr>id_seg = 1,
                 parts = [live_part ''c'' 1006, live_part ''d'' 1008, live_part ''e'' 1010],
                 duration_seg = 6\<rparr>"
  by (simp add: seg_defs is_full_def)

text \<open>
  C8, amended. For a start time \<open>T\<close>, five parts labelled \<^verbatim>\<open>live\<close> at
  \<open>T + 6, T + 8, T + 10, T + 12, T + 14\<close> with duration 2 each, fed to an aligning list, all
  map to segment id 1, and that segment is full with duration 10.
\<close>

theorem five_parts_scenario:
  "parent_segment_id (StreamSegmentList T True s) (live_part u1 (T + 6)) = 1
   \<and> parent_segment_id (StreamSegmentList T True s) (live_part u2 (T + 8)) = 1
   \<and> parent_segment_id (StreamSegmentList T True s) (live_part u3 (T + 10)) = 1
   \<and> parent_segment_id (StreamSegmentList T True s) (live_part u4 (T + 12)) = 1
   \<and> parent_segment_id (StreamSegmentList T True s) (live_part u5 (T + 14)) = 1
   \<and> add_parts (StreamSegmentList T True s)
       [live_part u1 (T + 6), live_part u2 (T + 8), live_part u3 (T + 10), live_part u4 (T + 12),
        live_part u5 (T + 14)] =
       Inr \<lparr>segments =
              [(1, \<lparr>id_seg = 1,
                    parts = [live_part u1 (T + 6), live_part u2 (T + 8), live_part u3 (T + 10),
                             live_part u4 (T + 12), live_part u5 (T + 14)],
                    duration_seg = 10\<rparr>)],
            current_id = 1, align_segments = True, stream_created_at = T\<rparr>
   \<and> is_full \<lparr>id_seg = 1,
               parts = [live_part u1 (T + 6), live_part u2 (T + 8), live_part u3 (T + 10),
                        live_part u4 (T + 12), live_part u5 (T + 14)],
               duration_seg = 10\<rparr>"
  by (simp add: seg_defs is_full_def)

section \<open>The claims about the capture loop\<close>

lemma align_emit [simp]: "align_segments_stream (emit e st) = align_segments_stream st"
  by (simp add: emit_def)





section \<open>Evaluating the capture loop on concrete inputs\<close>

lemma upt_6: "[0..<6] = [0, 1, 2, 3, 4, 5]"
  by (simp add: upt_rec)

lemma format_05d_1: "format_05d 1 = ''00001''"
  by (simp add: format_05d_def str_nat.simps numeral_eq_Suc)

lemmas run_defs = stream0_def emit_def now_def Let_def state_of_def
  fetch_advertised_parts_def build_download_queue_def download_queued_segments_def
  get_completed_segment_ids_def get_final_segment_def pass_body_def single_download_pass_def
  time_since_date_def start_def download_segment_def safe_move_def append_file_def
  path_join_def format_05d_1 is_segment_present_def get_segment_by_id_def
  py_int_def part_in_def set_add_def upt_6 trailing_segment_def

section \<open>Duplicate suppression\<close>

lemma part_in_iff: "part_in p ps \<longleftrightarrow> url p \<in> url ` set ps"
  by (simp add: part_in_def)

lemma announce_parts_count:
  "length (filter (\<lambda>q. url q = u) (incoming_part_buffer (announce_parts w ps st))) =
     length (filter (\<lambda>q. url q = u) (incoming_part_buffer st))
       + (if u \<in> url ` set ps \<and> u \<notin> url ` set (processed_parts st) then 1 else 0)
   \<and> url ` set (processed_parts (announce_parts w ps st)) = url ` set (processed_parts st) \<union> url ` set ps"
proof (induction ps arbitrary: st)
  case Nil
  show ?case by simp
next
  case (Cons p ps)
  show ?case
  proof (cases "part_in p (processed_parts st)")
    case True
    then have "announce_parts w (p # ps) st = announce_parts w ps st" by simp
    with Cons.IH [of st] True show ?thesis by (auto simp add: part_in_iff)
  next
    case False
    define st' where "st' = (st\<lparr>processed_parts := processed_parts st @ [p],
        incoming_part_buffer := incoming_part_buffer st @ [p],
        n_clock := Suc (n_clock st), last_part_announce := clock w (n_clock st)\<rparr>)"
    have step: "announce_parts w (p # ps) st = announce_parts w ps st'"
      using False by (simp add: Let_def now_def set_add_def st'_def)
    have f: "processed_parts st' = processed_parts st @ [p]"
      "incoming_part_buffer st' = incoming_part_buffer st @ [p]"
      by (simp_all add: st'_def)
    from False have np: "url p \<notin> url ` set (processed_parts st)" by (simp add: part_in_iff)
    show ?thesis unfolding step using Cons.IH [of st'] np by (auto simp add: f)
  qed
qed

lemma announce_parts_keeps:
  assumes "u \<in> url ` set (processed_parts st)"
  shows "filter (\<lambda>q. url q = u) (incoming_part_buffer (announce_parts w ps st)) =
           filter (\<lambda>q. url q = u) (incoming_part_buffer st)
       \<and> u \<in> url ` set (processed_parts (announce_parts w ps st))"
  using assms
proof (induction ps arbitrary: st)
  case Nil
  then show ?case by simp
next
  case (Cons p ps)
  show ?case
  proof (cases "part_in p (processed_parts st)")
    case True
    then have "announce_parts w (p # ps) st = announce_parts w ps st" by simp
    with Cons.IH [of st] Cons.prems show ?thesis by simp
  next
    case False
    define st' where "st' = (st\<lparr>processed_parts := processed_parts st @ [p],
        incoming_part_buffer := incoming_part_buffer st @ [p],
        n_clock := Suc (n_clock st), last_part_announce := clock w (n_clock st)\<rparr>)"
    have step: "announce_parts w (p # ps) st = announce_parts w ps st'"
      using False by (simp add: Let_def now_def set_add_def st'_def)
    have f: "processed_parts st' = processed_parts st @ [p]"
      "incoming_part_buffer st' = incoming_part_buffer st @ [p]"
      by (simp_all add: st'_def)
    from False Cons.prems have ne: "url p \<noteq> u" by (auto simp add: part_in_iff)
    have "u \<in> url ` set (processed_parts st')" using Cons.prems by (simp add: f)
    from Cons.IH [OF this] ne show ?thesis unfolding step by (simp add: f)
  qed
qed

lemma fetch_attempts_keeps:
  assumes "u \<in> url ` set (processed_parts st)"
  shows "filter (\<lambda>q. url q = u) (incoming_part_buffer (state_of (fetch_attempts w is st))) =
           filter (\<lambda>q. url q = u) (incoming_part_buffer st)
       \<and> u \<in> url ` set (processed_parts (state_of (fetch_attempts w is st)))"
  using assms
proof (induction "is" arbitrary: st)
  case Nil
  then show ?case by (simp add: state_of_def)
next
  case (Cons i "is")
  define st2 where "st2 = (emit Debug_fetching_parts st)\<lparr>n_playlist := Suc (n_playlist (emit Debug_fetching_parts st))\<rparr>"
  have f: "processed_parts st2 = processed_parts st" "incoming_part_buffer st2 = incoming_part_buffer st"
    by (simp_all add: st2_def emit_def)
  show ?case
  proof (cases "i > 4")
    case True
    with Cons.prems show ?thesis by (simp add: state_of_def)
  next
    case False
    show ?thesis
    proof (cases "get_stream_playlist w (n_playlist st)")
      case (Playlist ps)
      then have "fetch_attempts w (i # is) st = Inr (announce_parts w ps st2)"
        using False by (simp add: Let_def st2_def emit_def)
      with announce_parts_keeps [of u st2 w ps] Cons.prems show ?thesis
        by (simp add: state_of_def f)
    next
      case ConnectTimeout
      then have e: "fetch_attempts w (i # is) st = fetch_attempts w is (emit (Debug_timed_out (i + 1)) st2)"
        using False by (simp add: Let_def st2_def emit_def)
      have "u \<in> url ` set (processed_parts (emit (Debug_timed_out (i + 1)) st2))"
        using Cons.prems by (simp add: emit_def f)
      from Cons.IH [OF this] show ?thesis unfolding e by (simp add: emit_def f)
    next
      case NotFound
      then have "fetch_attempts w (i # is) st = Inl (TwitchAPIErrorNotFound, st2)"
        using False by (simp add: Let_def st2_def emit_def)
      with Cons.prems show ?thesis by (simp add: state_of_def f)
    next
      case (PlaylistError x)
      then have "fetch_attempts w (i # is) st = Inl (OtherError x, st2)"
        using False by (simp add: Let_def st2_def emit_def)
      with Cons.prems show ?thesis by (simp add: state_of_def f)
    qed
  qed
qed

text \<open>
  C9. Equality and hash of parts depend on the url alone. One parsed manifest appends to
  the incoming buffer exactly one part for each url that it advertises and that is not yet
  in the processed-parts set, none for any other url, and adds its urls to that set. So a
  url that is already processed is never queued again by a later fetch, whatever the other
  fields of the re-advertised part and however the fetch ends, and it stays processed.
\<close>

theorem duplicate_suppression:
  "part_eq p q = (url p = url q)
   \<and> part_hash h (q\<lparr>url := url p\<rparr>) = part_hash h p
   \<and> length (filter (\<lambda>q. url q = u) (incoming_part_buffer (announce_parts w ps st))) =
       length (filter (\<lambda>q. url q = u) (incoming_part_buffer st))
         + (if u \<in> url ` set ps \<and> u \<notin> url ` set (processed_parts st) then 1 else 0)
   \<and> url ` set (processed_parts (announce_parts w ps st)) = url ` set (processed_parts st) \<union> url ` set ps
   \<and> (u \<in> url ` set (processed_parts st) \<longrightarrow>
        filter (\<lambda>q. url q = u) (incoming_part_buffer (state_of (fetch_advertised_parts w st))) =
          filter (\<lambda>q. url q = u) (incoming_part_buffer st)
        \<and> u \<in> url ` set (processed_parts (state_of (fetch_advertised_parts w st))))"
proof -
  have "u \<in> url ` set (processed_parts st) \<Longrightarrow>
        filter (\<lambda>q. url q = u) (incoming_part_buffer (state_of (fetch_advertised_parts w st))) =
          filter (\<lambda>q. url q = u) (incoming_part_buffer st)
        \<and> u \<in> url ` set (processed_parts (state_of (fetch_advertised_parts w st)))"
    using fetch_attempts_keeps [of u "st\<lparr>n_clock := Suc (n_clock st)\<rparr>" w "[0..<6]"]
    by (simp add: fetch_advertised_parts_def now_def)
  with announce_parts_count [of u w ps st] show ?thesis
    by (simp add: part_eq_def part_hash_def)
qed

theorem duplicate_suppression_witness:
  "''a'' \<in> url ` set (processed_parts ((stream0 full_list)\<lparr>processed_parts := [live_part ''a'' 6]\<rparr>))
   \<and> filter (\<lambda>q. url q = ''a'')
        (incoming_part_buffer (state_of (fetch_advertised_parts readvertising_world
           ((stream0 full_list)\<lparr>processed_parts := [live_part ''a'' 6]\<rparr>)))) = []
   \<and> ''a'' \<in> url ` set (processed_parts (state_of (fetch_advertised_parts readvertising_world
           ((stream0 full_list)\<lparr>processed_parts := [live_part ''a'' 6]\<rparr>))))"
proof -
  let ?st = "(stream0 full_list)\<lparr>processed_parts := [live_part ''a'' 6]\<rparr>"
  have h: "''a'' \<in> url ` set (processed_parts ?st)" by (simp add: live_part_def)
  have b: "incoming_part_buffer ?st = []" by (simp add: stream0_def)
  from duplicate_suppression [of p p h "''a''" readvertising_world "[]" ?st] h b
  show ?thesis by simp
qed

section \<open>The end of the broadcast\<close>

lemma download_parts_frame:
  "download_queue (snd (download_parts w tmp seg ps st)) = download_queue st
   \<and> n_move (snd (download_parts w tmp seg ps st)) = n_move st
   \<and> count_list (trace (snd (download_parts w tmp seg ps st))) Debug_fetching_final =
       count_list (trace st) Debug_fetching_final
   \<and> (files st tmp \<noteq> None \<longrightarrow> files (snd (download_parts w tmp seg ps st)) tmp \<noteq> None)"
proof (induction ps arbitrary: st)
  case Nil
  show ?case by simp
next
  case (Cons p ps)
  let ?st1 = "st\<lparr>n_get := Suc (n_get st)\<rparr>"
  show ?case
  proof (cases "requests_get w (n_get st) (url p)")
    case (Response status body)
    show ?thesis
    proof (cases "status = 200")
      case True
      with Response have e: "download_parts w tmp seg (p # ps) st =
          download_parts w tmp seg ps (append_file tmp body ?st1)" by (simp add: Let_def)
      show ?thesis unfolding e using Cons.IH [of "append_file tmp body ?st1"]
        by (simp add: append_file_def)
    next
      case False
      with Response show ?thesis by (simp add: Let_def)
    qed
  next
    case (RequestException written)
    then have e: "download_parts w tmp seg (p # ps) st =
        download_parts w tmp seg ps (emit (Debug_error_downloading seg) (append_file tmp written ?st1))"
      by (simp add: Let_def)
    show ?thesis unfolding e
      using Cons.IH [of "emit (Debug_error_downloading seg) (append_file tmp written ?st1)"]
      by (simp add: append_file_def emit_def)
  qed
qed

lemma download_segment_frame:
  "download_queue (state_of (download_segment w s st)) = download_queue st
   \<and> count_list (trace (state_of (download_segment w s st))) Debug_fetching_final =
       count_list (trace st) Debug_fetching_final
   \<and> ((\<exists>st'. download_segment w s st = Inr st')
       \<or> (\<exists>st'. download_segment w s st = Inl (StreamSegmentDownloadError (id_seg s), st'))
          \<and> \<not> move_succeeds w (n_move st))"
proof -
  define tmp where "tmp = path_join (temp_dir st) (format_05d (id_seg s) @ ''.ts'')"
  define st2 where "st2 = (emit (Debug_downloading_segment (id_seg s) tmp) st)\<lparr>files :=
      (files (emit (Debug_downloading_segment (id_seg s) tmp) st))(tmp \<mapsto> [])\<rparr>"
  obtain completed st3 where dp: "download_parts w tmp (id_seg s) (parts s) st2 = (completed, st3)"
    by (cases "download_parts w tmp (id_seg s) (parts s) st2") auto
  have f2: "download_queue st2 = download_queue st" "n_move st2 = n_move st"
    "count_list (trace st2) Debug_fetching_final = count_list (trace st) Debug_fetching_final"
    "files st2 tmp \<noteq> None"
    by (simp_all add: st2_def emit_def)
  from download_parts_frame [of w tmp "id_seg s" "parts s" st2] dp f2
  have f3: "download_queue st3 = download_queue st" "n_move st3 = n_move st"
    "count_list (trace st3) Debug_fetching_final = count_list (trace st) Debug_fetching_final"
    "files st3 tmp \<noteq> None"
    by simp_all
  have ds: "download_segment w s st =
      (if \<not> completed then Inr st3
       else (case safe_move w tmp (path_join (output_dir st3) (format_05d (id_seg s) @ ''.ts'')) st3 of
               Inr st4 \<Rightarrow> Inr (emit (Debug_segment_completed (id_seg s)) st4)
             | Inl st4 \<Rightarrow> Inl (StreamSegmentDownloadError (id_seg s), st4)))"
    using dp by (simp add: download_segment_def upt_6 Let_def tmp_def st2_def)
  show ?thesis
  proof (cases completed)
    case False
    with ds f3 show ?thesis by (simp add: state_of_def)
  next
    case True
    from f3(4) obtain bs where bs: "files st3 tmp = Some bs" by auto
    show ?thesis
    proof (cases "move_succeeds w (n_move st)")
      case ok: True
      with True ds bs f3 show ?thesis
        by (simp add: state_of_def safe_move_def Let_def emit_def)
    next
      case ok: False
      with True ds bs f3 show ?thesis
        by (simp add: state_of_def safe_move_def Let_def emit_def)
    qed
  qed
qed

lemma get_final_segment_eq:
  "get_final_segment w st =
     (case download_queue st of
        None \<Rightarrow> Inl (AttributeError, st)
      | Some q \<Rightarrow>
          (case trailing_segment st of
             None \<Rightarrow> Inr st
           | Some s \<Rightarrow> download_segment w s (emit Debug_fetching_final st)))"
  by (auto simp add: get_final_segment_def trailing_segment_def present_iff get_segment_by_id_def
      Let_def split: option.splits)

lemma get_final_segment_frame:
  "download_queue (state_of (get_final_segment w st)) = download_queue st
   \<and> count_list (trace (state_of (get_final_segment w st))) Debug_fetching_final =
       count_list (trace st) Debug_fetching_final
         + (case trailing_segment st of None \<Rightarrow> 0 | Some s \<Rightarrow> 1)
   \<and> ((\<exists>st'. get_final_segment w st = Inr st')
       \<or> get_final_segment w st = Inl (AttributeError, st) \<and> download_queue st = None
       \<or> (\<exists>i st'. get_final_segment w st = Inl (StreamSegmentDownloadError i, st'))
          \<and> trailing_segment st \<noteq> None \<and> \<not> move_succeeds w (n_move st))"
proof (cases "download_queue st")
  case None
  then show ?thesis by (simp add: get_final_segment_eq state_of_def trailing_segment_def)
next
  case (Some q)
  show ?thesis
  proof (cases "trailing_segment st")
    case None
    with Some show ?thesis by (simp add: get_final_segment_eq state_of_def)
  next
    case (Some s)
    let ?st1 = "emit Debug_fetching_final st"
    have g: "get_final_segment w st = download_segment w s ?st1"
      using Some \<open>download_queue st = Some q\<close> by (simp add: get_final_segment_eq)
    have f1: "download_queue ?st1 = download_queue st" "n_move ?st1 = n_move st"
      "count_list (trace ?st1) Debug_fetching_final = count_list (trace st) Debug_fetching_final + 1"
      by (simp_all add: emit_def)
    from download_segment_frame [of w s ?st1] Some show ?thesis
      unfolding g f1 by auto
  qed
qed

lemma announce_parts_frame:
  "download_queue (announce_parts w ps st) = download_queue st
   \<and> n_move (announce_parts w ps st) = n_move st
   \<and> n_get (announce_parts w ps st) = n_get st
   \<and> output_dir (announce_parts w ps st) = output_dir st
   \<and> trace (announce_parts w ps st) = trace st"
proof (induction ps arbitrary: st)
  case Nil
  show ?case by simp
next
  case (Cons p ps)
  show ?case
  proof (cases "part_in p (processed_parts st)")
    case True
    with Cons.IH [of st] show ?thesis by simp
  next
    case False
    define st' where "st' = (st\<lparr>processed_parts := processed_parts st @ [p],
        incoming_part_buffer := incoming_part_buffer st @ [p],
        n_clock := Suc (n_clock st), last_part_announce := clock w (n_clock st)\<rparr>)"
    have step: "announce_parts w (p # ps) st = announce_parts w ps st'"
      using False by (simp add: Let_def now_def set_add_def st'_def)
    show ?thesis unfolding step using Cons.IH [of st'] by (simp add: st'_def)
  qed
qed

lemma fetch_attempts_frame:
  "download_queue (state_of (fetch_attempts w is st)) = download_queue st
   \<and> n_move (state_of (fetch_attempts w is st)) = n_move st
   \<and> n_get (state_of (fetch_attempts w is st)) = n_get st
   \<and> output_dir (state_of (fetch_attempts w is st)) = output_dir st
   \<and> count_list (trace (state_of (fetch_attempts w is st))) Debug_fetching_final =
       count_list (trace st) Debug_fetching_final"
proof (induction "is" arbitrary: st)
  case Nil
  show ?case by (simp add: state_of_def)
next
  case (Cons i "is")
  define st2 where "st2 = (emit Debug_fetching_parts st)\<lparr>n_playlist := Suc (n_playlist (emit Debug_fetching_parts st))\<rparr>"
  have f: "download_queue st2 = download_queue st" "n_move st2 = n_move st"
    "n_get st2 = n_get st" "output_dir st2 = output_dir st"
    "count_list (trace st2) Debug_fetching_final = count_list (trace st) Debug_fetching_final"
    by (simp_all add: st2_def emit_def)
  show ?case
  proof (cases "i > 4")
    case True
    then show ?thesis by (simp add: state_of_def)
  next
    case False
    show ?thesis
    proof (cases "get_stream_playlist w (n_playlist st)")
      case (Playlist ps)
      then have "fetch_attempts w (i # is) st = Inr (announce_parts w ps st2)"
        using False by (simp add: Let_def st2_def emit_def)
      with announce_parts_frame [of w ps st2] show ?thesis
        by (simp add: state_of_def f)
    next
      case ConnectTimeout
      then have e: "fetch_attempts w (i # is) st = fetch_attempts w is (emit (Debug_timed_out (i + 1)) st2)"
        using False by (simp add: Let_def st2_def emit_def)
      show ?thesis unfolding e using Cons.IH [of "emit (Debug_timed_out (i + 1)) st2"]
        by (simp add: emit_def f)
    next
      case NotFound
      then have "fetch_attempts w (i # is) st = Inl (TwitchAPIErrorNotFound, st2)"
        using False by (simp add: Let_def st2_def emit_def)
      then show ?thesis by (simp add: state_of_def f)
    next
      case (PlaylistError x)
      then have "fetch_attempts w (i # is) st = Inl (OtherError x, st2)"
        using False by (simp add: Let_def st2_def emit_def)
      then show ?thesis by (simp add: state_of_def f)
    qed
  qed
qed

lemma fetch_advertised_parts_frame:
  "download_queue (state_of (fetch_advertised_parts w st)) = download_queue st
   \<and> n_move (state_of (fetch_advertised_parts w st)) = n_move st
   \<and> n_get (state_of (fetch_advertised_parts w st)) = n_get st
   \<and> output_dir (state_of (fetch_advertised_parts w st)) = output_dir st
   \<and> count_list (trace (state_of (fetch_advertised_parts w st))) Debug_fetching_final =
       count_list (trace st) Debug_fetching_final"
  using fetch_attempts_frame [of w "[0..<6]" "st\<lparr>n_clock := Suc (n_clock st)\<rparr>"]
  by (simp add: fetch_advertised_parts_def now_def)

text \<open>When every request of a segment's parts answers with status 200 and the move
  succeeds, the file moved to the output directory holds the bodies in the order of the
  parts.\<close>

lemma download_parts_answered:
  assumes "all_answered w (n_get st) ps" and "files st tmp = Some old"
  shows "fst (download_parts w tmp seg ps st)
       \<and> files (snd (download_parts w tmp seg ps st)) =
           (files st)(tmp \<mapsto> old @ payloads w (n_get st) ps)
       \<and> n_move (snd (download_parts w tmp seg ps st)) = n_move st
       \<and> output_dir (snd (download_parts w tmp seg ps st)) = output_dir st
       \<and> n_get (snd (download_parts w tmp seg ps st)) = n_get st + length ps"
  using assms
proof (induction ps arbitrary: st old)
  case Nil
  then show ?case by auto
next
  case (Cons p ps)
  from Cons.prems(1) obtain body where r: "requests_get w (n_get st) (url p) = Response 200 body"
    and rest: "all_answered w (Suc (n_get st)) ps"
    by (auto split: http_result.splits)
  let ?st1 = "append_file tmp body (st\<lparr>n_get := Suc (n_get st)\<rparr>)"
  have e: "download_parts w tmp seg (p # ps) st = download_parts w tmp seg ps ?st1"
    using r by (simp add: Let_def)
  have f: "n_get ?st1 = Suc (n_get st)" "files ?st1 = (files st)(tmp \<mapsto> old @ body)"
    "n_move ?st1 = n_move st" "output_dir ?st1 = output_dir st"
    using Cons.prems(2) by (simp_all add: append_file_def)
  have "all_answered w (n_get ?st1) ps" "files ?st1 tmp = Some (old @ body)"
    using rest f by simp_all
  from Cons.IH [OF this] show ?case unfolding e using r by (auto simp add: f fun_eq_iff)
qed

lemma download_segment_answered:
  assumes "all_answered w (n_get st) (parts s)" and "move_succeeds w (n_move st)"
  shows "\<exists>st'. download_segment w s st = Inr st'
           \<and> files st' (path_join (output_dir st) (format_05d (id_seg s) @ ''.ts'')) =
               Some (payloads w (n_get st) (parts s))
           \<and> n_get st' = n_get st + length (parts s)"
proof -
  define tmp where "tmp = path_join (temp_dir st) (format_05d (id_seg s) @ ''.ts'')"
  define st2 where "st2 = (emit (Debug_downloading_segment (id_seg s) tmp) st)\<lparr>files :=
      (files (emit (Debug_downloading_segment (id_seg s) tmp) st))(tmp \<mapsto> [])\<rparr>"
  obtain completed st3 where dp: "download_parts w tmp (id_seg s) (parts s) st2 = (completed, st3)"
    by (cases "download_parts w tmp (id_seg s) (parts s) st2") auto
  have f2: "n_get st2 = n_get st" "n_move st2 = n_move st" "output_dir st2 = output_dir st"
    "files st2 tmp = Some []"
    by (simp_all add: st2_def emit_def)
  from download_parts_answered [of w st2 "parts s" tmp "[]" "id_seg s"] assms(1) dp f2
  have f3: "completed" "files st3 tmp = Some (payloads w (n_get st) (parts s))"
    "n_move st3 = n_move st" "output_dir st3 = output_dir st"
    "n_get st3 = n_get st + length (parts s)"
    by simp_all
  show ?thesis
    using dp f3 assms(2)
    by (simp add: download_segment_def upt_rec [of 0 6] Let_def tmp_def st2_def safe_move_def emit_def)
qed

text \<open>
  C7 as stated fails, in three ways. With more than 20 seconds gone since the last
  announcement, the pass that meets not-found flushes the trailing segment and the run
  loop flushes it a second time before it returns. With 5 seconds gone, the run loop
  does not return after that pass: it sleeps, polls the manifest again, and returns on
  the second pass, after three flushes. And when the file system refuses the move of
  the flushed file, the pass raises the segment download error to its caller. Last,
  while the queue is not assigned (the passes of \<^verbatim>\<open>_buffer_stream\<close>), the guard of line 250
  makes the pass return without any flush.
\<close>

theorem not_found_session_counterexample:
  "map_option (trace \<circ> state_of) (start 1 offline_world (stream0 trailing_list)) =
     Some [Debug_fetching_parts, Info_offline,
           Debug_fetching_final, Debug_downloading_segment 1 ''tmp/00001.ts'',
           Debug_segment_completed 1,
           Debug_fetching_final, Debug_downloading_segment 1 ''tmp/00001.ts'',
           Debug_segment_completed 1]
   \<and> map_option isl (start 1 offline_world (stream0 trailing_list)) = Some False
   \<and> start 1 lingering_world (stream0 trailing_list) = None
   \<and> map_option (trace \<circ> state_of) (start 2 lingering_world (stream0 trailing_list)) =
       Some [Debug_fetching_parts, Info_offline,
             Debug_fetching_final, Debug_downloading_segment 1 ''tmp/00001.ts'',
             Debug_segment_completed 1,
             Sleep 4,
             Debug_fetching_parts, Info_offline,
             Debug_fetching_final, Debug_downloading_segment 1 ''tmp/00001.ts'',
             Debug_segment_completed 1,
             Debug_fetching_final, Debug_downloading_segment 1 ''tmp/00001.ts'',
             Debug_segment_completed 1]
   \<and> map_option (n_playlist \<circ> state_of) (start 2 lingering_world (stream0 trailing_list)) = Some 2
   \<and> map_option (n_get \<circ> state_of) (start 2 lingering_world (stream0 trailing_list)) = Some 3
   \<and> map_sum fst id (single_download_pass readonly_world (stream0 trailing_list)) =
       Inl (StreamSegmentDownloadError 1)
   \<and> isl (single_download_pass offline_world
             ((stream0 trailing_list)\<lparr>download_queue := None\<rparr>)) = False
   \<and> trace (state_of (single_download_pass offline_world
                         ((stream0 trailing_list)\<lparr>download_queue := None\<rparr>))) =
       [Debug_fetching_parts, Info_offline]"
  by (simp add: run_defs offline_world_def lingering_world_def readonly_world_def
      trailing_list_def live_part_def numeral_2_eq_2)

text \<open>
  C7, amended. When the manifest fetch of a pass raises not-found, the pass does not
  surface it. With a segment stored at \<^verbatim>\<open>current_id\<close> of an assigned queue, the pass is
  exactly one call of \<^verbatim>\<open>_download_segment\<close> on that segment, after the two log lines; with
  no such segment, or with the queue not yet assigned, it flushes nothing and returns.
  The pass returns normally unless the move of the flushed file fails, which raises the
  segment download error. The pass does not end the session. When it has returned and
  more than 20 seconds have passed since the last announcement, the run loop returns the
  result of one more call of \<^verbatim>\<open>_get_final_segment\<close>, a second download of the same
  segment. When 20 seconds or less have passed, the run loop does not return: it makes
  its sleep decision and goes on to the next pass.
\<close>

theorem not_found_pass:
  assumes "fetch_advertised_parts w st = Inl (TwitchAPIErrorNotFound, st1)"
  shows "single_download_pass w st =
           (case trailing_segment st of
              None \<Rightarrow> Inr (emit Info_offline st1)
            | Some s \<Rightarrow> download_segment w s (emit Debug_fetching_final (emit Info_offline st1)))
       \<and> count_list (trace (state_of (single_download_pass w st))) Debug_fetching_final =
           count_list (trace st) Debug_fetching_final
             + (case trailing_segment st of None \<Rightarrow> 0 | Some s \<Rightarrow> 1)
       \<and> ((\<exists>st'. single_download_pass w st = Inr st')
           \<or> (\<exists>i st'. single_download_pass w st = Inl (StreamSegmentDownloadError i, st'))
              \<and> trailing_segment st \<noteq> None \<and> \<not> move_succeeds w (n_move st))
       \<and> (\<forall>st2. single_download_pass w st = Inr st2 \<longrightarrow>
            (if 20 < clock w (n_clock st2) - last_part_announce st2
             then start_loop (Suc n) w t0 st =
                    Some (get_final_segment w (st2\<lparr>n_clock := Suc (n_clock st2)\<rparr>))
                  \<and> get_final_segment w (st2\<lparr>n_clock := Suc (n_clock st2)\<rparr>) =
                      (case download_queue st of
                         None \<Rightarrow> Inl (AttributeError, st2\<lparr>n_clock := Suc (n_clock st2)\<rparr>)
                       | Some q \<Rightarrow>
                           (case trailing_segment st of
                              None \<Rightarrow> Inr (st2\<lparr>n_clock := Suc (n_clock st2)\<rparr>)
                            | Some s \<Rightarrow>
                                download_segment w s
                                  (emit Debug_fetching_final (st2\<lparr>n_clock := Suc (n_clock st2)\<rparr>))))
                  \<and> count_list (trace (state_of
                        (get_final_segment w (st2\<lparr>n_clock := Suc (n_clock st2)\<rparr>))))
                        Debug_fetching_final =
                      count_list (trace st) Debug_fetching_final
                        + (case trailing_segment st of None \<Rightarrow> 0 | Some s \<Rightarrow> 2)
             else start_loop (Suc 0) w t0 st = None
                  \<and> start_loop (Suc (Suc n)) w t0 st =
                      start_loop (Suc n) w t0
                        (let t = clock w (Suc (n_clock st2));
                             st4 = st2\<lparr>n_clock := Suc (Suc (n_clock st2))\<rparr>
                         in if py_int (t - t0) < 4 then emit (Sleep (4 - py_int (t - t0))) st4
                            else st4)))
       \<and> (\<forall>s. trailing_segment st = Some s \<and> all_answered w (n_get st) (parts s)
                \<and> move_succeeds w (n_move st) \<longrightarrow>
            (\<exists>st'. single_download_pass w st = Inr st'
               \<and> files st' (path_join (output_dir st) (format_05d (id_seg s) @ ''.ts'')) =
                   Some (payloads w (n_get st) (parts s))
               \<and> n_get st' = n_get st + length (parts s)))"
proof -
  let ?st1 = "emit Info_offline st1"
  from fetch_advertised_parts_frame [of w st] assms
  have f1: "download_queue st1 = download_queue st" "n_move st1 = n_move st"
    "count_list (trace st1) Debug_fetching_final = count_list (trace st) Debug_fetching_final"
    and g1: "n_get st1 = n_get st" "output_dir st1 = output_dir st"
    by (simp_all add: state_of_def)
  from f1 have f1': "download_queue ?st1 = download_queue st" "n_move ?st1 = n_move st"
    "count_list (trace ?st1) Debug_fetching_final = count_list (trace st) Debug_fetching_final"
    "trailing_segment ?st1 = trailing_segment st"
    by (simp_all add: emit_def trailing_segment_def)
  have pass0: "single_download_pass w st =
      (case download_queue st of None \<Rightarrow> Inr ?st1 | Some q \<Rightarrow> get_final_segment w ?st1)"
    using assms f1'(1) by (simp add: single_download_pass_def pass_body_def Let_def)
  have A: "single_download_pass w st =
           (case trailing_segment st of
              None \<Rightarrow> Inr ?st1
            | Some s \<Rightarrow> download_segment w s (emit Debug_fetching_final ?st1))"
    unfolding pass0 by (cases "download_queue st")
      (simp_all add: get_final_segment_eq f1' trailing_segment_def split: option.splits)
  note gf = get_final_segment_frame [of w ?st1, unfolded f1']
  have frame: "download_queue (state_of (single_download_pass w st)) = download_queue st"
    and B: "count_list (trace (state_of (single_download_pass w st))) Debug_fetching_final =
           count_list (trace st) Debug_fetching_final
             + (case trailing_segment st of None \<Rightarrow> 0 | Some s \<Rightarrow> 1)"
    and C: "(\<exists>st'. single_download_pass w st = Inr st')
           \<or> (\<exists>i st'. single_download_pass w st = Inl (StreamSegmentDownloadError i, st'))
              \<and> trailing_segment st \<noteq> None \<and> \<not> move_succeeds w (n_move st)"
  proof -
    show "download_queue (state_of (single_download_pass w st)) = download_queue st"
      unfolding pass0 using gf f1' by (cases "download_queue st") (simp_all add: state_of_def)
    show "count_list (trace (state_of (single_download_pass w st))) Debug_fetching_final =
           count_list (trace st) Debug_fetching_final
             + (case trailing_segment st of None \<Rightarrow> 0 | Some s \<Rightarrow> 1)"
      unfolding pass0 using gf f1'
      by (cases "download_queue st") (simp_all add: state_of_def trailing_segment_def)
    show "(\<exists>st'. single_download_pass w st = Inr st')
           \<or> (\<exists>i st'. single_download_pass w st = Inl (StreamSegmentDownloadError i, st'))
              \<and> trailing_segment st \<noteq> None \<and> \<not> move_succeeds w (n_move st)"
      unfolding pass0 using gf by (cases "download_queue st") auto
  qed
  have D: "if 20 < clock w (n_clock st2) - last_part_announce st2
             then start_loop (Suc n) w t0 st =
                    Some (get_final_segment w (st2\<lparr>n_clock := Suc (n_clock st2)\<rparr>))
                  \<and> get_final_segment w (st2\<lparr>n_clock := Suc (n_clock st2)\<rparr>) =
                      (case download_queue st of
                         None \<Rightarrow> Inl (AttributeError, st2\<lparr>n_clock := Suc (n_clock st2)\<rparr>)
                       | Some q \<Rightarrow>
                           (case trailing_segment st of
                              None \<Rightarrow> Inr (st2\<lparr>n_clock := Suc (n_clock st2)\<rparr>)
                            | Some s \<Rightarrow>
                                download_segment w s
                                  (emit Debug_fetching_final (st2\<lparr>n_clock := Suc (n_clock st2)\<rparr>))))
                  \<and> count_list (trace (state_of
                        (get_final_segment w (st2\<lparr>n_clock := Suc (n_clock st2)\<rparr>))))
                        Debug_fetching_final =
                      count_list (trace st) Debug_fetching_final
                        + (case trailing_segment st of None \<Rightarrow> 0 | Some s \<Rightarrow> 2)
             else start_loop (Suc 0) w t0 st = None
                  \<and> start_loop (Suc (Suc n)) w t0 st =
                      start_loop (Suc n) w t0
                        (let t = clock w (Suc (n_clock st2));
                             st4 = st2\<lparr>n_clock := Suc (Suc (n_clock st2))\<rparr>
                         in if py_int (t - t0) < 4 then emit (Sleep (4 - py_int (t - t0))) st4
                            else st4)"
    if st2: "single_download_pass w st = Inr st2" for st2
  proof (cases "20 < clock w (n_clock st2) - last_part_announce st2")
    case True
    let ?st3 = "st2\<lparr>n_clock := Suc (n_clock st2)\<rparr>"
    from st2 frame B have f2: "download_queue st2 = download_queue st"
      "count_list (trace st2) Debug_fetching_final =
         count_list (trace st) Debug_fetching_final
           + (case trailing_segment st of None \<Rightarrow> 0 | Some s \<Rightarrow> 1)"
      by (simp_all add: state_of_def)
    then have f3: "download_queue ?st3 = download_queue st"
      "trailing_segment ?st3 = trailing_segment st"
      "count_list (trace ?st3) Debug_fetching_final =
         count_list (trace st) Debug_fetching_final
           + (case trailing_segment st of None \<Rightarrow> 0 | Some s \<Rightarrow> 1)"
      by (simp_all add: trailing_segment_def)
    have l: "start_loop (Suc n) w t0 st = Some (get_final_segment w ?st3)"
      using st2 True by (simp add: time_since_date_def now_def Let_def)
    have e: "get_final_segment w ?st3 =
        (case download_queue st of
           None \<Rightarrow> Inl (AttributeError, ?st3)
         | Some q \<Rightarrow>
             (case trailing_segment st of
                None \<Rightarrow> Inr ?st3
              | Some s \<Rightarrow> download_segment w s (emit Debug_fetching_final ?st3)))"
      unfolding get_final_segment_eq [of w ?st3] f3 ..
    have c: "count_list (trace (state_of (get_final_segment w ?st3))) Debug_fetching_final =
        count_list (trace st) Debug_fetching_final
          + (case trailing_segment st of None \<Rightarrow> 0 | Some s \<Rightarrow> 2)"
      using get_final_segment_frame [of w ?st3] f3 by (simp split: option.splits)
    from True l e c show ?thesis by (simp only: if_True)
  next
    case False
    have l0: "start_loop (Suc 0) w t0 st = None"
      using st2 False by (simp add: time_since_date_def now_def Let_def)
    have l1: "start_loop (Suc (Suc n)) w t0 st =
        start_loop (Suc n) w t0
          (let t = clock w (Suc (n_clock st2));
               st4 = st2\<lparr>n_clock := Suc (Suc (n_clock st2))\<rparr>
           in if py_int (t - t0) < 4 then emit (Sleep (4 - py_int (t - t0))) st4 else st4)"
      using st2 False
      by (simp add: start_loop.simps(2) [of "Suc n"] time_since_date_def now_def Let_def
          del: start_loop.simps)
    from False l0 l1 show ?thesis by (simp only: if_False)
  qed
  have E: "\<exists>st'. single_download_pass w st = Inr st'
               \<and> files st' (path_join (output_dir st) (format_05d (id_seg s) @ ''.ts'')) =
                   Some (payloads w (n_get st) (parts s))
               \<and> n_get st' = n_get st + length (parts s)"
    if s: "trailing_segment st = Some s" and ok: "all_answered w (n_get st) (parts s)"
      and mv: "move_succeeds w (n_move st)" for s
  proof -
    let ?st2 = "emit Debug_fetching_final ?st1"
    have g2: "n_get ?st2 = n_get st" "n_move ?st2 = n_move st" "output_dir ?st2 = output_dir st"
      using g1 f1 by (simp_all add: emit_def)
    from A s have p: "single_download_pass w st = download_segment w s ?st2" by simp
    from download_segment_answered [of w ?st2 s] ok mv show ?thesis
      unfolding p g2 by simp
  qed
  from A B C D E show ?thesis by blast
qed

theorem not_found_pass_witness:
  "fetch_advertised_parts offline_world (stream0 trailing_list) =
     Inl (TwitchAPIErrorNotFound,
          (stream0 trailing_list)\<lparr>n_playlist := 1, n_clock := 1, trace := [Debug_fetching_parts]\<rparr>)
   \<and> single_download_pass offline_world (stream0 trailing_list) =
       download_segment offline_world
         \<lparr>id_seg = 1, parts = [live_part ''a'' 6], duration_seg = 2\<rparr>
         (emit Debug_fetching_final (emit Info_offline
            ((stream0 trailing_list)\<lparr>n_playlist := 1, n_clock := 1,
               trace := [Debug_fetching_parts]\<rparr>)))
   \<and> (\<exists>st2. single_download_pass offline_world (stream0 trailing_list) = Inr st2
         \<and> files st2 ''out/00001.ts'' = Some [7]
         \<and> 20 < clock offline_world (n_clock st2) - last_part_announce st2
         \<and> start_loop (Suc 0) offline_world 130 (stream0 trailing_list) =
             Some (get_final_segment offline_world (st2\<lparr>n_clock := Suc (n_clock st2)\<rparr>)))
   \<and> fetch_advertised_parts lingering_world (stream0 trailing_list) =
       Inl (TwitchAPIErrorNotFound,
            (stream0 trailing_list)\<lparr>n_playlist := 1, n_clock := 1, trace := [Debug_fetching_parts]\<rparr>)
   \<and> (\<exists>st2. single_download_pass lingering_world (stream0 trailing_list) = Inr st2
         \<and> clock lingering_world (n_clock st2) - last_part_announce st2 = 5
         \<and> start_loop (Suc 0) lingering_world 105 (stream0 trailing_list) = None)
   \<and> fetch_advertised_parts offline_world ((stream0 trailing_list)\<lparr>download_queue := None\<rparr>) =
       Inl (TwitchAPIErrorNotFound,
            (stream0 trailing_list)\<lparr>download_queue := None, n_playlist := 1, n_clock := 1,
               trace := [Debug_fetching_parts]\<rparr>)
   \<and> single_download_pass offline_world ((stream0 trailing_list)\<lparr>download_queue := None\<rparr>) =
       Inr (emit Info_offline
              ((stream0 trailing_list)\<lparr>download_queue := None, n_playlist := 1, n_clock := 1,
                 trace := [Debug_fetching_parts]\<rparr>))"
proof -
  let ?S = "stream0 trailing_list"
  let ?S1 = "?S\<lparr>n_playlist := 1, n_clock := 1, trace := [Debug_fetching_parts]\<rparr>"
  let ?seg = "\<lparr>id_seg = 1, parts = [live_part ''a'' 6], duration_seg = 2\<rparr>"
  have tr: "trailing_segment ?S = Some ?seg"
    by (simp add: trailing_segment_def stream0_def trailing_list_def)
  have fields: "n_get ?S = 0" "n_move ?S = 0" "output_dir ?S = ''out''"
    by (simp_all add: stream0_def)
  (* the quiet period has elapsed *)
  have h1: "fetch_advertised_parts offline_world ?S = Inl (TwitchAPIErrorNotFound, ?S1)"
    by (simp add: run_defs offline_world_def)
  note t1 = not_found_pass [OF h1, of 0 130]
  from t1 tr have a1: "single_download_pass offline_world ?S =
      download_segment offline_world ?seg (emit Debug_fetching_final (emit Info_offline ?S1))"
    by simp
  have ok1: "all_answered offline_world (n_get ?S) (parts ?seg)"
    and mv1: "move_succeeds offline_world (n_move ?S)"
    by (simp_all add: offline_world_def)
  from t1 tr ok1 mv1 obtain st2 where st2: "single_download_pass offline_world ?S = Inr st2"
    and fl: "files st2 (path_join (output_dir ?S) (format_05d (id_seg ?seg) @ ''.ts'')) =
               Some (payloads offline_world (n_get ?S) (parts ?seg))"
    by blast
  from fl have fl': "files st2 ''out/00001.ts'' = Some [7]"
    by (simp add: fields path_join_def format_05d_1 offline_world_def)
  have "last_part_announce (state_of (single_download_pass offline_world ?S)) = 100"
    by (simp add: run_defs offline_world_def trailing_list_def live_part_def)
  with st2 have late: "20 < clock offline_world (n_clock st2) - last_part_announce st2"
    by (simp add: state_of_def offline_world_def)
  note D1 = t1 [THEN conjunct2, THEN conjunct2, THEN conjunct2, THEN conjunct1, rule_format, OF st2]
  from D1 late have l1: "start_loop (Suc 0) offline_world 130 ?S =
      Some (get_final_segment offline_world (st2\<lparr>n_clock := Suc (n_clock st2)\<rparr>))"
    by (simp only: if_True)
  (* the quiet period has not elapsed *)
  have h2: "fetch_advertised_parts lingering_world ?S = Inl (TwitchAPIErrorNotFound, ?S1)"
    by (simp add: run_defs lingering_world_def)
  note t2 = not_found_pass [OF h2, of 0 105]
  have ok2: "all_answered lingering_world (n_get ?S) (parts ?seg)"
    and mv2: "move_succeeds lingering_world (n_move ?S)"
    by (simp_all add: lingering_world_def)
  from t2 tr ok2 mv2 obtain st3 where st3: "single_download_pass lingering_world ?S = Inr st3"
    by blast
  have "last_part_announce (state_of (single_download_pass lingering_world ?S)) = 100"
    "n_clock (state_of (single_download_pass lingering_world ?S)) = 1"
    by (simp_all add: run_defs lingering_world_def trailing_list_def live_part_def)
  with st3 have early: "clock lingering_world (n_clock st3) - last_part_announce st3 = 5"
    by (simp add: state_of_def lingering_world_def)
  then have ne: "\<not> 20 < clock lingering_world (n_clock st3) - last_part_announce st3" by simp
  note D2 = t2 [THEN conjunct2, THEN conjunct2, THEN conjunct2, THEN conjunct1, rule_format, OF st3]
  from D2 ne have l2: "start_loop (Suc 0) lingering_world 105 ?S = None"
    by (simp only: if_False)
  (* the queue is not assigned yet *)
  let ?B = "?S\<lparr>download_queue := None\<rparr>"
  let ?B1 = "?S\<lparr>download_queue := None, n_playlist := 1, n_clock := 1, trace := [Debug_fetching_parts]\<rparr>"
  have h3: "fetch_advertised_parts offline_world ?B = Inl (TwitchAPIErrorNotFound, ?B1)"
    by (simp add: run_defs offline_world_def)
  have tb: "trailing_segment ?B = None" by (simp add: trailing_segment_def)
  from not_found_pass [OF h3, of 0 130] tb
  have a3: "single_download_pass offline_world ?B = Inr (emit Info_offline ?B1)" by simp
  from h1 a1 st2 fl' late l1 h2 st3 early l2 h3 a3 show ?thesis by blast
qed

section \<open>The segment fetcher and the cadence of the run loop\<close>

text \<open>
  C2 fails on the code: the handler of \<^verbatim>\<open>RequestException\<close> (line 415) only logs, so the
  loop over the parts goes on to the next part and the file is moved without the bytes
  of the failed part; no path through the body of the retry loop reaches a second
  attempt. With the first request failing and every later one answering, the file moved
  to \<^verbatim>\<open>out/00001.ts\<close> holds the payload of the second part only, after two requests.
\<close>

theorem download_segment_leaves_gap:
  "requests_get flaky_world 0 ''a'' = RequestException []
   \<and> requests_get flaky_world 2 ''a'' = Response 200 [1, 2]
   \<and> requests_get flaky_world 1 ''b'' = Response 200 [3]
   \<and> isl (download_segment flaky_world two_part_segment (stream0 full_list)) = False
   \<and> files (state_of (download_segment flaky_world two_part_segment (stream0 full_list)))
        ''out/00001.ts'' = Some [3]
   \<and> n_get (state_of (download_segment flaky_world two_part_segment (stream0 full_list))) = 2
   \<and> trace (state_of (download_segment flaky_world two_part_segment (stream0 full_list))) =
       [Debug_downloading_segment 1 ''tmp/00001.ts'', Debug_error_downloading 1,
        Debug_segment_completed 1]"
  by (simp add: run_defs flaky_world_def two_part_segment_def live_part_def)

text \<open>
  C10 fails on the code: \<^verbatim>\<open>_start_timestamp\<close> is read once, before the loop (line 219),
  so \<^verbatim>\<open>_loop_time\<close> is the time since \<^verbatim>\<open>start\<close> was entered, not the duration of the pass
  (the loop of \<^verbatim>\<open>_buffer_stream\<close> reads it at the top of every iteration, line 323). The
  first pass takes one second and is followed by a sleep of three; the second pass runs
  from 104 to 105, one second again, and is followed by no sleep.
\<close>

theorem start_sleeps_only_once:
  "clock quiet_world 0 = 100
   \<and> clock quiet_world 1 = 100 \<and> clock quiet_world 3 = 101
   \<and> clock quiet_world 4 = 104 \<and> clock quiet_world 6 = 105
   \<and> map_option (trace \<circ> state_of) (start 3 quiet_world (stream0 trailing_list)) =
       Some [Debug_fetching_parts, Debug_building_queue, Debug_processing_queue,
             Sleep 3,
             Debug_fetching_parts, Debug_building_queue, Debug_processing_queue,
             Debug_fetching_parts, Debug_building_queue, Debug_processing_queue,
             Debug_fetching_final, Debug_downloading_segment 1 ''tmp/00001.ts'',
             Debug_segment_completed 1]"
  by (simp add: run_defs quiet_world_def trailing_list_def live_part_def numeral_3_eq_3)

end
